theory Spec2Isabelle
  imports Main "HOL-Library.Word"
begin

unbundle bit_operations_syntax

section \<open>Data model\<close>

text \<open>
  The repository holds two sketches with the same functions.  In \<^verbatim>\<open>neopixel.ino\<close>
  mode 0 of the run-length stream is \<^verbatim>\<open>MODE_PULSE\<close> (nine parameter bytes, handled by
  \<^verbatim>\<open>LEDInit\<close> only, the \<^verbatim>\<open>MODE_GAP\<close> cases of \<^verbatim>\<open>LEDStep\<close> and \<^verbatim>\<open>LEDShow\<close> are
  commented out).  In the other sketch mode 0 is \<^verbatim>\<open>MODE_GAP\<close> (no parameter byte) and
  \<^verbatim>\<open>LEDStep\<close>/\<^verbatim>\<open>LEDShow\<close> blank the colour.  Everything else is the same text, so the
  functions below take the sketch as their first argument and differ only in the
  mode 0 branch of each \<^verbatim>\<open>switch\<close>.
\<close>

datatype sketch = PulseSketch | GapSketch

type_synonym byte = "8 word"

abbreviation (input) MODE_MASK :: byte where "MODE_MASK \<equiv> 0xC0"
abbreviation (input) LENGTH_MASK :: byte where "LENGTH_MASK \<equiv> 0x3F"
abbreviation (input) MODE_PULSE :: byte where "MODE_PULSE \<equiv> 0"
abbreviation (input) MODE_GAP :: byte where "MODE_GAP \<equiv> 0"
abbreviation (input) MODE_SIMPLE :: byte where "MODE_SIMPLE \<equiv> 0x40"
abbreviation (input) MODE_GRADIENT :: byte where "MODE_GRADIENT \<equiv> 0x80"
abbreviation (input) MODE_END :: byte where "MODE_END \<equiv> 0xC0"

text \<open>
  \<^verbatim>\<open>struct LEDSTRING\<close>.  The two pointers into the run-length data are offsets into the
  program's byte array.  The deltas are \<^verbatim>\<open>signed char\<close>: they are stored as the byte
  read from flash and read back through \<open>sint\<close>.  The other sketch has no \<open>iDir\<close>,
  start and end fields; its functions never touch them.
\<close>

record LEDSTRING =
  iLen :: int
  lastOP :: byte
  pRLEStart :: nat
  pRLE :: nat
  iCount :: byte
  iDir :: byte
  r :: byte
  g :: byte
  b :: byte
  dr :: byte
  dg :: byte
  db :: byte
  sr :: byte
  sg :: byte
  sb :: byte
  er :: byte
  eg :: byte
  eb :: byte

text \<open>
  \<^verbatim>\<open>pgm_read_byte\<close> has no bounds check.  A read outside the array it is aimed at is
  an error value of the model, one for the program and one for the palette.
\<close>

datatype error = ProgramOverrun | PaletteOverrun

definition bindE :: "error + 'a \<Rightarrow> ('a \<Rightarrow> error + 'c) \<Rightarrow> error + 'c" where
  "bindE m f = (case m of Inl e \<Rightarrow> Inl e | Inr x \<Rightarrow> f x)"

definition read_rle :: "byte list \<Rightarrow> nat \<Rightarrow> error + byte" where
  "read_rle prog s = (if s < length prog then Inr (prog ! s) else Inl ProgramOverrun)"

definition read_palette :: "byte list \<Rightarrow> nat \<Rightarrow> error + byte" where
  "read_palette pal i = (if i < length pal then Inr (pal ! i) else Inl PaletteOverrun)"

definition memset0 :: LEDSTRING where
  "memset0 = \<lparr>iLen = 0, lastOP = 0, pRLEStart = 0, pRLE = 0, iCount = 0, iDir = 0,
     r = 0, g = 0, b = 0, dr = 0, dg = 0, db = 0,
     sr = 0, sg = 0, sb = 0, er = 0, eg = 0, eb = 0\<rparr>"

text \<open>
  The three lines \<^verbatim>\<open>i *= 3; r = pgm_read_byte(pPalette + i++); ...\<close> that every
  \<^verbatim>\<open>MODE_SIMPLE\<close> and \<^verbatim>\<open>MODE_GRADIENT\<close> case repeats.
\<close>

definition load_palette :: "byte list \<Rightarrow> byte \<Rightarrow> LEDSTRING \<Rightarrow> error + LEDSTRING" where
  "load_palette pal idx st =
     (let i = 3 * unat idx in
      bindE (read_palette pal i) (\<lambda>x.
      bindE (read_palette pal (i + 1)) (\<lambda>y.
      bindE (read_palette pal (i + 2)) (\<lambda>z.
      Inr (st\<lparr>r := x, g := y, b := z\<rparr>)))))"

text \<open>The three reads \<^verbatim>\<open>dr = pgm_read_byte(s++); dg = ...; db = ...\<close>.\<close>

definition load_deltas :: "byte list \<Rightarrow> nat \<Rightarrow> LEDSTRING \<Rightarrow> error + nat \<times> LEDSTRING" where
  "load_deltas prog s st =
     bindE (read_rle prog s) (\<lambda>x.
     bindE (read_rle prog (s + 1)) (\<lambda>y.
     bindE (read_rle prog (s + 2)) (\<lambda>z.
     Inr (s + 3, st\<lparr>dr := x, dg := y, db := z\<rparr>))))"

section \<open>LEDInit\<close>

text \<open>The nine reads of the \<^verbatim>\<open>MODE_PULSE\<close> case of \<^verbatim>\<open>LEDInit\<close>.\<close>

definition load_pulse :: "byte list \<Rightarrow> nat \<Rightarrow> LEDSTRING \<Rightarrow> error + nat \<times> LEDSTRING" where
  "load_pulse prog s st =
     bindE (read_rle prog s) (\<lambda>x0.
     bindE (read_rle prog (s + 1)) (\<lambda>x1.
     bindE (read_rle prog (s + 2)) (\<lambda>x2.
     bindE (read_rle prog (s + 3)) (\<lambda>x3.
     bindE (read_rle prog (s + 4)) (\<lambda>x4.
     bindE (read_rle prog (s + 5)) (\<lambda>x5.
     bindE (read_rle prog (s + 6)) (\<lambda>x6.
     bindE (read_rle prog (s + 7)) (\<lambda>x7.
     bindE (read_rle prog (s + 8)) (\<lambda>x8.
     Inr (s + 9,
          st\<lparr>sr := x0, r := x0, sg := x1, g := x1, sb := x2, b := x2,
             dr := x3, dg := x4, db := x5,
             er := x6, eg := x7, eb := x8, iDir := 0\<rparr>))))))))))"

definition LEDInit :: "sketch \<Rightarrow> byte list \<Rightarrow> byte list \<Rightarrow> int \<Rightarrow> error + LEDSTRING" where
  "LEDInit k pal prog iNumLEDs =
     (let st0 = memset0\<lparr>pRLEStart := 0, iLen := iNumLEDs\<rparr> in
      bindE (read_rle prog 0) (\<lambda>op.
      let st1 = st0\<lparr>iCount := op AND LENGTH_MASK, lastOP := op AND MODE_MASK\<rparr>;
          m = op AND MODE_MASK
      in bindE
           (if m = MODE_PULSE then
              (case k of PulseSketch \<Rightarrow> load_pulse prog 1 st1
                       | GapSketch \<Rightarrow> Inr (1, st1))
            else if m = MODE_SIMPLE then
              bindE (read_rle prog 1) (\<lambda>idx.
              bindE (load_palette pal idx st1) (\<lambda>st2. Inr (2, st2)))
            else if m = MODE_GRADIENT then
              bindE (read_rle prog 1) (\<lambda>idx.
              bindE (load_palette pal idx st1) (\<lambda>st2. load_deltas prog 2 st2))
            else Inr (1, st1))
           (\<lambda>(s, st). Inr (st\<lparr>pRLE := s\<rparr>))))"

section \<open>LEDPulse\<close>

text \<open>
  The candidate colours are \<^verbatim>\<open>int\<close>s; \<open>bChangeDir\<close> is the chain of six tests that
  sets the flag of that name.  The two tests of the blue channel are written
  \<^verbatim>\<open>b > (pString->eb || b < pString->sb)\<close> and \<^verbatim>\<open>b < (pString->eb || b > pString->sb)\<close>
  in the source: the candidate is compared with the truth value, 0 or 1, of the
  parenthesis.
\<close>

definition bChangeDir :: "LEDSTRING \<Rightarrow> int \<Rightarrow> int \<Rightarrow> int \<Rightarrow> bool" where
  "bChangeDir st r1 g1 b1 =
     (if sr st < er st \<and> (r1 > uint (er st) \<or> r1 < uint (sr st)) then True
      else if sr st > er st \<and> (r1 < uint (er st) \<or> r1 > uint (sr st)) then True
      else if sg st < eg st \<and> (g1 > uint (eg st) \<or> g1 < uint (sg st)) then True
      else if sg st > eg st \<and> (g1 < uint (eg st) \<or> g1 > uint (sg st)) then True
      else if sb st < eb st
              \<and> b1 > (if eb st \<noteq> 0 \<or> b1 < uint (sb st) then 1 else 0) then True
      else if sb st > eb st
              \<and> b1 < (if eb st \<noteq> 0 \<or> b1 > uint (sb st) then 1 else 0) then True
      else False)"

definition LEDPulse :: "LEDSTRING \<Rightarrow> LEDSTRING" where
  "LEDPulse st =
     (let r1 = (if iDir st = 0 then uint (r st) + sint (dr st) else uint (r st) - sint (dr st));
          g1 = (if iDir st = 0 then uint (g st) + sint (dg st) else uint (g st) - sint (dg st));
          b1 = (if iDir st = 0 then uint (b st) + sint (db st) else uint (b st) - sint (db st))
      in if bChangeDir st r1 g1 b1 then
           (if iDir st = 0
            then st\<lparr>r := er st, g := eg st, b := eb st, iDir := 1\<rparr>
            else st\<lparr>r := sr st, g := sg st, b := sb st, iDir := 0\<rparr>)
         else st\<lparr>r := word_of_int r1, g := word_of_int g1, b := word_of_int b1\<rparr>)"

section \<open>LEDStep\<close>

text \<open>
  One pass through the body of the \<^verbatim>\<open>for\<close> loop.  The loop works on the local
  pointer \<open>s\<close> and on \<^verbatim>\<open>*pString\<close>; \<^verbatim>\<open>pString->pRLE\<close> is written once, after the loop.
\<close>

definition LEDStep_iter ::
    "sketch \<Rightarrow> byte list \<Rightarrow> byte list \<Rightarrow> nat \<times> LEDSTRING \<Rightarrow> error + nat \<times> LEDSTRING" where
  "LEDStep_iter k pal prog x =
     (case x of (s, st) \<Rightarrow>
      if iCount st > 0 then
        Inr (s, (if lastOP st = MODE_GRADIENT
                 then st\<lparr>r := word_of_int (uint (r st) + sint (dr st)),
                         g := word_of_int (uint (g st) + sint (dg st)),
                         b := word_of_int (uint (b st) + sint (db st))\<rparr>
                 else st)\<lparr>iCount := iCount st - 1\<rparr>)
      else
        bindE (read_rle prog s) (\<lambda>op0.
        bindE (if op0 = MODE_END
               then bindE (read_rle prog (pRLEStart st)) (\<lambda>op1. Inr (op1, pRLEStart st + 1))
               else Inr (op0, s + 1)) (\<lambda>(op, s1).
        let st1 = st\<lparr>iCount := op AND LENGTH_MASK, lastOP := op AND MODE_MASK\<rparr>;
            m = op AND MODE_MASK
        in if m = MODE_GAP \<and> k = GapSketch then
             Inr (s1, st1\<lparr>r := 0, g := 0, b := 0\<rparr>)
           else if m = MODE_SIMPLE then
             bindE (read_rle prog s1) (\<lambda>idx.
             bindE (load_palette pal idx st1) (\<lambda>st2. Inr (s1 + 1, st2)))
           else if m = MODE_GRADIENT then
             bindE (read_rle prog s1) (\<lambda>idx.
             bindE (load_palette pal idx st1) (\<lambda>st2. load_deltas prog (s1 + 1) st2))
           else Inr (s1, st1))))"

primrec LEDStep_loop ::
    "sketch \<Rightarrow> byte list \<Rightarrow> byte list \<Rightarrow> nat \<Rightarrow> nat \<times> LEDSTRING \<Rightarrow> error + nat \<times> LEDSTRING" where
  "LEDStep_loop k pal prog 0 x = Inr x"
| "LEDStep_loop k pal prog (Suc n) x =
     bindE (LEDStep_iter k pal prog x) (LEDStep_loop k pal prog n)"

definition LEDStep ::
    "sketch \<Rightarrow> byte list \<Rightarrow> byte list \<Rightarrow> LEDSTRING \<Rightarrow> int \<Rightarrow> error + LEDSTRING" where
  "LEDStep k pal prog st iStepCount =
     bindE (LEDStep_loop k pal prog (nat iStepCount) (pRLE st, st))
       (\<lambda>(s, st'). Inr (st'\<lparr>pRLE := s\<rparr>))"

section \<open>LEDShow\<close>

text \<open>
  \<^verbatim>\<open>LEDShow\<close> copies \<^verbatim>\<open>*pString\<close> into the local \<open>string\<close>, sends the colour of
  every pixel with \<^verbatim>\<open>LEDSendColor\<close> and repeats the text of the body of \<^verbatim>\<open>LEDStep\<close>
  on the copy.  The model returns the colours handed to \<^verbatim>\<open>LEDSendColor\<close>, in order,
  and the value of \<^verbatim>\<open>*pString\<close> on return.
\<close>

type_synonym rgb = "byte \<times> byte \<times> byte"

definition LEDShow_iter ::
    "sketch \<Rightarrow> byte list \<Rightarrow> byte list \<Rightarrow> nat \<times> LEDSTRING \<Rightarrow> error + nat \<times> LEDSTRING" where
  "LEDShow_iter k pal prog x =
     (case x of (s, string) \<Rightarrow>
      if iCount string > 0 then
        Inr (s, (if lastOP string = MODE_GRADIENT
                 then string\<lparr>r := word_of_int (uint (r string) + sint (dr string)),
                             g := word_of_int (uint (g string) + sint (dg string)),
                             b := word_of_int (uint (b string) + sint (db string))\<rparr>
                 else string)\<lparr>iCount := iCount string - 1\<rparr>)
      else
        bindE (read_rle prog s) (\<lambda>op0.
        bindE (if op0 = MODE_END
               then bindE (read_rle prog (pRLEStart string))
                      (\<lambda>op1. Inr (op1, pRLEStart string + 1))
               else Inr (op0, s + 1)) (\<lambda>(op, s1).
        let string1 = string\<lparr>iCount := op AND LENGTH_MASK, lastOP := op AND MODE_MASK\<rparr>;
            m = op AND MODE_MASK
        in if m = MODE_GAP \<and> k = GapSketch then
             Inr (s1, string1\<lparr>r := 0, g := 0, b := 0\<rparr>)
           else if m = MODE_SIMPLE then
             bindE (read_rle prog s1) (\<lambda>iOff.
             bindE (load_palette pal iOff string1) (\<lambda>string2. Inr (s1 + 1, string2)))
           else if m = MODE_GRADIENT then
             bindE (read_rle prog s1) (\<lambda>iOff.
             bindE (load_palette pal iOff string1)
               (\<lambda>string2. load_deltas prog (s1 + 1) string2))
           else Inr (s1, string1))))"

primrec LEDShow_loop ::
    "sketch \<Rightarrow> byte list \<Rightarrow> byte list \<Rightarrow> nat \<Rightarrow> nat \<times> LEDSTRING \<Rightarrow> error + rgb list" where
  "LEDShow_loop k pal prog 0 x = Inr []"
| "LEDShow_loop k pal prog (Suc n) x =
     bindE (LEDShow_iter k pal prog x) (\<lambda>y.
     bindE (LEDShow_loop k pal prog n y) (\<lambda>out.
     Inr ((r (snd x), g (snd x), b (snd x)) # out)))"

definition LEDShow ::
    "sketch \<Rightarrow> byte list \<Rightarrow> byte list \<Rightarrow> LEDSTRING \<Rightarrow> error + rgb list \<times> LEDSTRING" where
  "LEDShow k pal prog pString =
     (let string = pString; s = pRLE string in
      bindE (LEDShow_loop k pal prog (nat (iLen string)) (s, string))
        (\<lambda>out. Inr (out, pString)))"

section \<open>Auxiliary definitions\<close>

subsection \<open>The decoding tail of the loop body\<close>

text \<open>
  What the body of \<^verbatim>\<open>LEDStep\<close> does from \<^verbatim>\<open>pString->iCount = (b & LENGTH_MASK)\<close> to the
  end of the \<^verbatim>\<open>switch\<close>, for the operation byte \<open>op\<close> with the pointer already past it.
\<close>

definition switch_op ::
    "sketch \<Rightarrow> byte list \<Rightarrow> byte list \<Rightarrow> byte \<Rightarrow> nat \<Rightarrow> LEDSTRING \<Rightarrow> error + nat \<times> LEDSTRING" where
  "switch_op k pal prog op s1 st =
     (let st1 = st\<lparr>iCount := op AND LENGTH_MASK, lastOP := op AND MODE_MASK\<rparr>;
          m = op AND MODE_MASK
      in if m = MODE_GAP \<and> k = GapSketch then
           Inr (s1, st1\<lparr>r := 0, g := 0, b := 0\<rparr>)
         else if m = MODE_SIMPLE then
           bindE (read_rle prog s1) (\<lambda>idx.
           bindE (load_palette pal idx st1) (\<lambda>st2. Inr (s1 + 1, st2)))
         else if m = MODE_GRADIENT then
           bindE (read_rle prog s1) (\<lambda>idx.
           bindE (load_palette pal idx st1) (\<lambda>st2. load_deltas prog (s1 + 1) st2))
         else Inr (s1, st1))"

text \<open>
  A step with no remaining count decodes: \<open>decodes\<close> says that the reads of the
  operation byte succeed, \<open>decoded_op\<close> is the byte the \<^verbatim>\<open>switch\<close> sees (the first
  byte of the program when the cursor is on \<^verbatim>\<open>MODE_END\<close>), and \<open>param_cursor\<close> is
  where its parameter bytes start.
\<close>

definition decodes :: "byte list \<Rightarrow> LEDSTRING \<Rightarrow> bool" where
  "decodes prog st \<longleftrightarrow>
     iCount st = 0 \<and> pRLE st < length prog
     \<and> (prog ! pRLE st = MODE_END \<longrightarrow> pRLEStart st < length prog)"

definition decoded_op :: "byte list \<Rightarrow> LEDSTRING \<Rightarrow> byte" where
  "decoded_op prog st =
     (if prog ! pRLE st = MODE_END then prog ! pRLEStart st else prog ! pRLE st)"

definition param_cursor :: "byte list \<Rightarrow> LEDSTRING \<Rightarrow> nat" where
  "param_cursor prog st =
     (if prog ! pRLE st = MODE_END then pRLEStart st + 1 else pRLE st + 1)"

text \<open>The effect of \<open>n\<close> passes through the continuation branch of the loop body.\<close>

definition run_on :: "nat \<Rightarrow> LEDSTRING \<Rightarrow> LEDSTRING" where
  "run_on n st =
     (if lastOP st = MODE_GRADIENT
      then st\<lparr>r := r st + of_nat n * dr st, g := g st + of_nat n * dg st,
              b := b st + of_nat n * db st\<rparr>
      else st)\<lparr>iCount := iCount st - of_nat n\<rparr>"

text \<open>The candidate colours of \<^verbatim>\<open>LEDPulse\<close>, before the tests.\<close>

definition cand_r :: "LEDSTRING \<Rightarrow> int" where
  "cand_r st = (if iDir st = 0 then uint (r st) + sint (dr st) else uint (r st) - sint (dr st))"

definition cand_g :: "LEDSTRING \<Rightarrow> int" where
  "cand_g st = (if iDir st = 0 then uint (g st) + sint (dg st) else uint (g st) - sint (dg st))"

definition cand_b :: "LEDSTRING \<Rightarrow> int" where
  "cand_b st = (if iDir st = 0 then uint (b st) + sint (db st) else uint (b st) - sint (db st))"

subsection \<open>The frame as the specification words it\<close>

text \<open>
  \<open>RenderFrame\<close> follows the sentence of the specification: for each of the pixels,
  read the current colour, hand it to the serializer, advance one step.
\<close>

definition CurrentColor :: "LEDSTRING \<Rightarrow> rgb" where
  "CurrentColor st = (r st, g st, b st)"

primrec RenderFrame ::
    "sketch \<Rightarrow> byte list \<Rightarrow> byte list \<Rightarrow> nat \<Rightarrow> LEDSTRING \<Rightarrow> error + rgb list" where
  "RenderFrame k pal prog 0 st = Inr []"
| "RenderFrame k pal prog (Suc n) st =
     bindE (LEDStep k pal prog st 1) (\<lambda>st'.
     bindE (RenderFrame k pal prog n st') (\<lambda>out.
     Inr (CurrentColor st # out)))"

subsection \<open>Reachable states\<close>

inductive reachable :: "sketch \<Rightarrow> byte list \<Rightarrow> byte list \<Rightarrow> LEDSTRING \<Rightarrow> bool"
  for k pal prog where
  init: "LEDInit k pal prog n = Inr st \<Longrightarrow> reachable k pal prog st"
| step: "reachable k pal prog st \<Longrightarrow> LEDStep k pal prog st c = Inr st'
           \<Longrightarrow> reachable k pal prog st'"
| pulse: "reachable k pal prog st \<Longrightarrow> reachable k pal prog (LEDPulse st)"

code_pred reachable .

subsection \<open>Programs as the sketches write them\<close>

text \<open>
  The demo programs are lists of \<^verbatim>\<open>MODE_SIMPLE | n, index\<close> and
  \<^verbatim>\<open>MODE_GRADIENT | n, index, dr, dg, db\<close> groups closed by \<^verbatim>\<open>MODE_END\<close>; the other
  sketch also has \<^verbatim>\<open>MODE_GAP | n\<close>.  An \<open>opcode\<close> is one such group (the first field
  holds the length bits), \<open>assemble\<close> writes a list of them out, \<open>offs ops j\<close> is the
  offset of the \<open>j\<close>-th group.  \<open>op_ok\<close> leaves mode 0 out for the sketch in which
  it is \<^verbatim>\<open>MODE_PULSE\<close>; \<open>pal_ok\<close> says that the palette holds the entry a group names.
\<close>

datatype opcode = Gap byte | Simple byte byte | Gradient byte byte byte byte byte

fun encode :: "opcode \<Rightarrow> byte list" where
  "encode (Gap n) = [MODE_GAP OR (n AND LENGTH_MASK)]"
| "encode (Simple n i) = [MODE_SIMPLE OR (n AND LENGTH_MASK), i]"
| "encode (Gradient n i x y z) = [MODE_GRADIENT OR (n AND LENGTH_MASK), i, x, y, z]"

definition assemble :: "opcode list \<Rightarrow> byte list" where
  "assemble ops = concat (map encode ops) @ [MODE_END]"

definition offs :: "opcode list \<Rightarrow> nat \<Rightarrow> nat" where
  "offs ops j = length (concat (map encode (take j ops)))"

fun op_ok :: "sketch \<Rightarrow> opcode \<Rightarrow> bool" where
  "op_ok PulseSketch (Gap n) = False"
| "op_ok k other = True"

fun pal_ok :: "byte list \<Rightarrow> opcode \<Rightarrow> bool" where
  "pal_ok pal (Gap n) = True"
| "pal_ok pal (Simple n i) = (3 * unat i + 2 < length pal)"
| "pal_ok pal (Gradient n i x y z) = (3 * unat i + 2 < length pal)"

fun run_field :: "opcode \<Rightarrow> byte" where
  "run_field (Gap n) = n AND LENGTH_MASK"
| "run_field (Simple n i) = n AND LENGTH_MASK"
| "run_field (Gradient n i x y z) = n AND LENGTH_MASK"

text \<open>
  A run shows one pixel more than its length bits say: the pixel on which it is
  decoded and one for each count.  \<open>period\<close> is the number of pixels of all runs.
\<close>

definition run_length :: "opcode \<Rightarrow> nat" where
  "run_length c = Suc (unat (run_field c))"

definition period :: "opcode list \<Rightarrow> nat" where
  "period ops = sum_list (map run_length ops)"

text \<open>What decoding the group \<open>c\<close> leaves in the structure.\<close>

fun load_op :: "byte list \<Rightarrow> opcode \<Rightarrow> LEDSTRING \<Rightarrow> LEDSTRING" where
  "load_op pal (Gap n) st =
     st\<lparr>iCount := n AND LENGTH_MASK, lastOP := MODE_GAP, r := 0, g := 0, b := 0\<rparr>"
| "load_op pal (Simple n i) st =
     st\<lparr>iCount := n AND LENGTH_MASK, lastOP := MODE_SIMPLE,
        r := pal ! (3 * unat i), g := pal ! (3 * unat i + 1), b := pal ! (3 * unat i + 2)\<rparr>"
| "load_op pal (Gradient n i x y z) st =
     st\<lparr>iCount := n AND LENGTH_MASK, lastOP := MODE_GRADIENT,
        r := pal ! (3 * unat i), g := pal ! (3 * unat i + 1), b := pal ! (3 * unat i + 2),
        dr := x, dg := y, db := z\<rparr>"

text \<open>The bytes of \<open>c\<close> sit in \<open>prog\<close> from offset \<open>p\<close>.\<close>

definition holds_at :: "byte list \<Rightarrow> nat \<Rightarrow> opcode \<Rightarrow> bool" where
  "holds_at prog p c \<longleftrightarrow>
     p + length (encode c) \<le> length prog
     \<and> (\<forall>i < length (encode c). prog ! (p + i) = encode c ! i)"

definition next_op :: "opcode list \<Rightarrow> nat \<Rightarrow> nat" where
  "next_op ops j = (if j < length ops then j else 0)"

text \<open>The local pointer of the loop is on the boundary after some group.\<close>

definition at_boundary :: "opcode list \<Rightarrow> nat \<times> LEDSTRING \<Rightarrow> bool" where
  "at_boundary ops x \<longleftrightarrow>
     pRLEStart (snd x) = 0 \<and> (\<exists>j. 1 \<le> j \<and> j \<le> length ops \<and> fst x = offs ops j)"

subsection \<open>States up to stale deltas\<close>

text \<open>
  Only \<^verbatim>\<open>MODE_GRADIENT\<close> writes and reads \<open>dr\<close>, \<open>dg\<close>, \<open>db\<close>; in any other run they
  keep what the last gradient left.  \<open>same_view\<close> relates two states that agree on
  every other field, and on the deltas too while a gradient runs.  \<open>frame_eq\<close>
  relates two states that agree on the fields no step writes.
\<close>

definition same_view :: "LEDSTRING \<Rightarrow> LEDSTRING \<Rightarrow> bool" where
  "same_view x y \<longleftrightarrow>
     x\<lparr>dr := 0, dg := 0, db := 0\<rparr> = y\<lparr>dr := 0, dg := 0, db := 0\<rparr>
     \<and> (lastOP x = MODE_GRADIENT \<longrightarrow> dr x = dr y \<and> dg x = dg y \<and> db x = db y)"

definition frame_eq :: "LEDSTRING \<Rightarrow> LEDSTRING \<Rightarrow> bool" where
  "frame_eq x y \<longleftrightarrow>
     x\<lparr>iCount := 0, lastOP := 0, r := 0, g := 0, b := 0, dr := 0, dg := 0, db := 0\<rparr>
       = y\<lparr>iCount := 0, lastOP := 0, r := 0, g := 0, b := 0, dr := 0, dg := 0, db := 0\<rparr>"

definition sim :: "error + nat \<times> LEDSTRING \<Rightarrow> error + nat \<times> LEDSTRING \<Rightarrow> bool" where
  "sim m1 m2 \<longleftrightarrow>
     (case m1 of Inl e \<Rightarrow> m2 = Inl e
      | Inr p \<Rightarrow> (case m2 of Inl e \<Rightarrow> False
                  | Inr q \<Rightarrow> fst p = fst q \<and> same_view (snd p) (snd q)))"

subsection \<open>Well-formed programs as the specification words them\<close>

text \<open>
  The format table of the specification: two mode bits and six length bits, mode 01
  with one parameter byte, mode 10 with four, mode 11 the end sentinel with none,
  mode 00 with none (gap) or nine (pulse).  A program is well formed when it is a
  sequence of complete operations closed by a byte of mode 11 as its last byte.
\<close>

definition spec_params :: "sketch \<Rightarrow> byte \<Rightarrow> nat" where
  "spec_params k x =
     (if x AND MODE_MASK = MODE_SIMPLE then 1
      else if x AND MODE_MASK = MODE_GRADIENT then 4
      else if x AND MODE_MASK = MODE_END then 0
      else (case k of PulseSketch \<Rightarrow> 9 | GapSketch \<Rightarrow> 0))"

function spec_well_formed :: "sketch \<Rightarrow> byte list \<Rightarrow> bool" where
  "spec_well_formed k [] = False"
| "spec_well_formed k (x # xs) =
     (if x AND MODE_MASK = MODE_END then xs = []
      else spec_params k x \<le> length xs \<and> spec_well_formed k (drop (spec_params k x) xs))"
  by pat_completeness auto
termination
  by (relation "measure (\<lambda>(k, xs). length xs)") auto

subsection \<open>Data of the sketches\<close>

text \<open>
  \<^verbatim>\<open>pPalette\<close> of \<^verbatim>\<open>neopixel.ino\<close> and of the other sketch, \<^verbatim>\<open>pSimple1\<close>, and small
  programs in the same format with the states they lead to.
\<close>

definition pPalette :: "byte list" where
  "pPalette =
     [0,0,0, 0x1,0,0, 0,0x1,0, 0,0,0x1, 0x1,0x1,0, 0x1,0,0x1, 0,0x1,0x1, 0x1,0x1,0x1,
      0,0,0, 0x8,0,0, 0,0x8,0, 0,0,0x8, 0x8,0x8,0, 0x8,0,0x8, 0,0x8,0x8, 0x8,0x8,0x8,
      0,0,0, 0x10,0,0, 0,0x10,0, 0,0,0x10, 0x10,0x10,0, 0x10,0,0x10, 0,0x10,0x10,
      0x10,0x10,0x10]"

definition pPalette_gap :: "byte list" where
  "pPalette_gap =
     [0,0,0, 0x20,0,0, 0,0x20,0, 0,0,0x20, 0x20,0x20,0, 0x20,0,0x20, 0,0x20,0x20,
      0x20,0x20,0x20]"

definition pSimple1 :: "byte list" where
  "pSimple1 = [MODE_SIMPLE OR 0x3B, 1, MODE_END]"

text \<open>A simple run of two pixels and a gradient run of two pixels.\<close>

definition ops_a :: "opcode list" where
  "ops_a = [Simple 1 1, Gradient 1 2 8 0xF8 0]"

definition prog_a :: "byte list" where
  "prog_a = [MODE_SIMPLE OR 1, 1, MODE_GRADIENT OR 1, 2, 8, 0xF8, 0, MODE_END]"

definition st_a :: LEDSTRING where
  "st_a = \<lparr>iLen = 5, lastOP = MODE_SIMPLE, pRLEStart = 0, pRLE = 2, iCount = 1, iDir = 0,
     r = 0x20, g = 0, b = 0, dr = 0, dg = 0, db = 0,
     sr = 0, sg = 0, sb = 0, er = 0, eg = 0, eb = 0\<rparr>"

definition st_b :: LEDSTRING where
  "st_b = st_a\<lparr>iCount := 0\<rparr>"

definition st_c :: LEDSTRING where
  "st_c = \<lparr>iLen = 5, lastOP = MODE_GRADIENT, pRLEStart = 0, pRLE = 7, iCount = 1, iDir = 0,
     r = 0, g = 0x20, b = 0, dr = 8, dg = 0xF8, db = 0,
     sr = 0, sg = 0, sb = 0, er = 0, eg = 0, eb = 0\<rparr>"

definition frame_a :: "rgb list" where
  "frame_a = [(0x20, 0, 0), (0x20, 0, 0), (0, 0x20, 0), (8, 0x18, 0), (0x20, 0, 0)]"

text \<open>
  The state of \<^verbatim>\<open>pSimple1\<close> when its run is used up, which is also the state after
  \<^verbatim>\<open>LEDInit\<close> of any program that starts with \<^verbatim>\<open>MODE_SIMPLE | 0, 1\<close>.
\<close>

definition st_end :: LEDSTRING where
  "st_end = \<lparr>iLen = 60, lastOP = MODE_SIMPLE, pRLEStart = 0, pRLE = 2, iCount = 0, iDir = 0,
     r = 1, g = 0, b = 0, dr = 0, dg = 0, db = 0,
     sr = 0, sg = 0, sb = 0, er = 0, eg = 0, eb = 0\<rparr>"

definition prog_c5 :: "byte list" where
  "prog_c5 = [MODE_SIMPLE OR 0, 1, MODE_END OR 5, MODE_END]"

definition prog_gap :: "byte list" where
  "prog_gap = [MODE_SIMPLE OR 0, 1, MODE_GAP OR 2, MODE_END]"

definition prog_p :: "byte list" where
  "prog_p = [MODE_SIMPLE OR 0, 1, MODE_PULSE OR 1, 5, 6, 7, 1, 1, 1, 9, 9, 9, MODE_END]"

definition prog_tail :: "byte list" where
  "prog_tail = [MODE_SIMPLE OR 0, 1, MODE_END OR 5]"

definition st_tail :: LEDSTRING where
  "st_tail = \<lparr>iLen = 60, lastOP = MODE_SIMPLE, pRLEStart = 0, pRLE = 2, iCount = 0, iDir = 0,
     r = 0x20, g = 0, b = 0, dr = 0, dg = 0, db = 0,
     sr = 0, sg = 0, sb = 0, er = 0, eg = 0, eb = 0\<rparr>"

text \<open>The program that is the sentinel alone, and the state \<^verbatim>\<open>LEDInit\<close> makes of it.\<close>

definition prog_lone :: "byte list" where
  "prog_lone = [MODE_END]"

definition st_lone :: LEDSTRING where
  "st_lone = \<lparr>iLen = 60, lastOP = MODE_END, pRLEStart = 0, pRLE = 1, iCount = 0, iDir = 0,
     r = 0, g = 0, b = 0, dr = 0, dg = 0, db = 0,
     sr = 0, sg = 0, sb = 0, er = 0, eg = 0, eb = 0\<rparr>"

text \<open>Two pulse programs with the same numbers, one on blue and one on red.\<close>

definition prog_blue :: "byte list" where
  "prog_blue = [MODE_PULSE OR 0x3B, 0, 0, 0, 0, 0, 1, 0, 0, 10, MODE_END]"

definition st_blue :: LEDSTRING where
  "st_blue = \<lparr>iLen = 60, lastOP = MODE_PULSE, pRLEStart = 0, pRLE = 10, iCount = 0x3B, iDir = 0,
     r = 0, g = 0, b = 0, dr = 0, dg = 0, db = 1,
     sr = 0, sg = 0, sb = 0, er = 0, eg = 0, eb = 10\<rparr>"

definition prog_red :: "byte list" where
  "prog_red = [MODE_PULSE OR 0x3B, 0, 0, 0, 1, 0, 0, 10, 0, 0, MODE_END]"

definition st_red :: LEDSTRING where
  "st_red = \<lparr>iLen = 60, lastOP = MODE_PULSE, pRLEStart = 0, pRLE = 10, iCount = 0x3B, iDir = 0,
     r = 0, g = 0, b = 0, dr = 1, dg = 0, db = 0,
     sr = 0, sg = 0, sb = 0, er = 10, eg = 0, eb = 0\<rparr>"


section \<open>Basic facts\<close>

lemma bindE_simps [simp]: "bindE (Inr x) f = f x" "bindE (Inl e) f = Inl e"
  by (simp_all add: bindE_def)

lemma bindE_Inr_iff: "bindE m f = Inr y \<longleftrightarrow> (\<exists>x. m = Inr x \<and> f x = Inr y)"
  by (cases m) simp_all

lemma load_palette_eq:
  "load_palette pal idx st =
     (if 3 * unat idx + 2 < length pal
      then Inr (st\<lparr>r := pal ! (3 * unat idx), g := pal ! (3 * unat idx + 1),
                  b := pal ! (3 * unat idx + 2)\<rparr>)
      else Inl PaletteOverrun)"
  by (simp add: load_palette_def read_palette_def Let_def)

lemma load_deltas_eq:
  "load_deltas prog s st =
     (if s + 2 < length prog
      then Inr (s + 3, st\<lparr>dr := prog ! s, dg := prog ! (s + 1), db := prog ! (s + 2)\<rparr>)
      else Inl ProgramOverrun)"
  by (simp add: load_deltas_def read_rle_def)

lemma LEDStep_iter_cont:
  "iCount st > 0 \<Longrightarrow> LEDStep_iter k pal prog (s, st) =
     Inr (s, (if lastOP st = MODE_GRADIENT
              then st\<lparr>r := word_of_int (uint (r st) + sint (dr st)),
                      g := word_of_int (uint (g st) + sint (dg st)),
                      b := word_of_int (uint (b st) + sint (db st))\<rparr>
              else st)\<lparr>iCount := iCount st - 1\<rparr>)"
  by (simp add: LEDStep_iter_def)

lemma LEDStep_iter_decode:
  "iCount st = 0 \<Longrightarrow> LEDStep_iter k pal prog (s, st) =
     bindE (read_rle prog s) (\<lambda>op0.
       if op0 = MODE_END
       then bindE (read_rle prog (pRLEStart st))
              (\<lambda>op1. switch_op k pal prog op1 (pRLEStart st + 1) st)
       else switch_op k pal prog op0 (s + 1) st)"
  by (cases "read_rle prog s"; cases "read_rle prog (pRLEStart st)")
     (simp_all add: LEDStep_iter_def switch_op_def)

lemma switch_op_pRLE:
  "switch_op k pal prog op s1 (st\<lparr>pRLE := x\<rparr>) =
     bindE (switch_op k pal prog op s1 st) (\<lambda>(s', st'). Inr (s', st'\<lparr>pRLE := x\<rparr>))"
proof -
  consider (gap) "op AND MODE_MASK = MODE_GAP \<and> k = GapSketch"
    | (simple) "\<not> (op AND MODE_MASK = MODE_GAP \<and> k = GapSketch)"
        "op AND MODE_MASK = MODE_SIMPLE"
    | (gradient) "\<not> (op AND MODE_MASK = MODE_GAP \<and> k = GapSketch)"
        "op AND MODE_MASK \<noteq> MODE_SIMPLE" "op AND MODE_MASK = MODE_GRADIENT"
    | (other) "\<not> (op AND MODE_MASK = MODE_GAP \<and> k = GapSketch)"
        "op AND MODE_MASK \<noteq> MODE_SIMPLE" "op AND MODE_MASK \<noteq> MODE_GRADIENT"
    by blast
  then show ?thesis
  proof cases
    case gap
    then show ?thesis by (simp add: switch_op_def Let_def)
  next
    case simple
    then show ?thesis
      by (cases "read_rle prog s1") (simp_all add: switch_op_def Let_def load_palette_eq)
  next
    case gradient
    then show ?thesis
      by (cases "read_rle prog s1")
         (simp_all add: switch_op_def Let_def load_palette_eq load_deltas_eq)
  next
    case other
    then show ?thesis by (auto simp add: switch_op_def Let_def)
  qed
qed

lemma LEDStep_iter_pRLE:
  "LEDStep_iter k pal prog (s, st\<lparr>pRLE := x\<rparr>) =
     bindE (LEDStep_iter k pal prog (s, st)) (\<lambda>(s', st'). Inr (s', st'\<lparr>pRLE := x\<rparr>))"
proof (cases "iCount st > 0")
  case True
  then show ?thesis by (simp add: LEDStep_iter_cont)
next
  case False
  then have z: "iCount st = 0" by (simp add: word_greater_zero_iff)
  show ?thesis
    by (cases "read_rle prog s"; cases "read_rle prog (pRLEStart st)")
       (simp_all add: LEDStep_iter_decode z switch_op_pRLE)
qed

lemma LEDStep_loop_pRLE:
  "LEDStep_loop k pal prog n (s, st\<lparr>pRLE := x\<rparr>) =
     bindE (LEDStep_loop k pal prog n (s, st)) (\<lambda>(s', st'). Inr (s', st'\<lparr>pRLE := x\<rparr>))"
proof (induction n arbitrary: s st)
  case 0
  show ?case by simp
next
  case (Suc n)
  show ?case
    by (cases "LEDStep_iter k pal prog (s, st)") (auto simp add: LEDStep_iter_pRLE Suc.IH)
qed

lemma LEDStep_loop_add:
  "LEDStep_loop k pal prog (m + n) x =
     bindE (LEDStep_loop k pal prog m x) (LEDStep_loop k pal prog n)"
proof (induction m arbitrary: x)
  case 0
  show ?case by simp
next
  case (Suc m)
  show ?case by (cases "LEDStep_iter k pal prog x") (simp_all add: Suc.IH)
qed

lemma LEDStep_zero: "LEDStep k pal prog st 0 = Inr st"
  by (simp add: LEDStep_def)

lemma LEDStep_one:
  "LEDStep k pal prog st 1 =
     bindE (LEDStep_iter k pal prog (pRLE st, st)) (\<lambda>(s', st'). Inr (st'\<lparr>pRLE := s'\<rparr>))"
  by (cases "LEDStep_iter k pal prog (pRLE st, st)") (simp_all add: LEDStep_def)

lemma LEDStep_add:
  "LEDStep k pal prog st (int (m + n)) =
     bindE (LEDStep k pal prog st (int m)) (\<lambda>st'. LEDStep k pal prog st' (int n))"
proof -
  have nat_eq: "nat (int (m + n)) = m + n" "nat (int m) = m" "nat (int n) = n"
    by simp_all
  show ?thesis
  proof (cases "LEDStep_loop k pal prog m (pRLE st, st)")
    case (Inl e)
    then show ?thesis
      unfolding LEDStep_def nat_eq by (simp add: LEDStep_loop_add)
  next
    case (Inr y)
    obtain s1 st1 where y: "y = (s1, st1)" by (cases y)
    show ?thesis
      unfolding LEDStep_def nat_eq
      by (cases "LEDStep_loop k pal prog n (s1, st1)")
         (auto simp add: LEDStep_loop_add Inr y LEDStep_loop_pRLE)
  qed
qed

section \<open>The frame\<close>

lemma LEDShow_iter_eq: "LEDShow_iter k pal prog x = LEDStep_iter k pal prog x"
  unfolding LEDShow_iter_def LEDStep_iter_def by (rule refl)

lemma LEDShow_loop_RenderFrame:
  "LEDShow_loop k pal prog n (s, st) = RenderFrame k pal prog n (st\<lparr>pRLE := s\<rparr>)"
proof (induction n arbitrary: s st)
  case 0
  show ?case by simp
next
  case (Suc n)
  show ?case
    by (cases "LEDStep_iter k pal prog (s, st)")
       (auto simp add: LEDShow_iter_eq LEDStep_one LEDStep_iter_pRLE Suc.IH CurrentColor_def)
qed

lemma RenderFrame_length:
  "RenderFrame k pal prog n st = Inr out \<Longrightarrow> length out = n"
proof (induction n arbitrary: st out)
  case 0
  then show ?case by simp
next
  case (Suc n)
  then show ?case by (auto simp add: bindE_Inr_iff)
qed

lemma RenderFrame_nth:
  "RenderFrame k pal prog n st = Inr out \<Longrightarrow> i < n \<Longrightarrow>
     \<exists>sti. LEDStep k pal prog st (int i) = Inr sti \<and> out ! i = CurrentColor sti"
proof (induction n arbitrary: st out i)
  case 0
  then show ?case by simp
next
  case (Suc n)
  from Suc.prems(1) obtain st' out' where
    step: "LEDStep k pal prog st 1 = Inr st'" and
    rest: "RenderFrame k pal prog n st' = Inr out'" and
    out: "out = CurrentColor st # out'"
    by (auto simp add: bindE_Inr_iff)
  show ?case
  proof (cases i)
    case 0
    then show ?thesis by (simp add: out LEDStep_zero)
  next
    case (Suc j)
    with Suc.prems(2) have "j < n" by simp
    from Suc.IH [OF rest this] obtain sti where
      "LEDStep k pal prog st' (int j) = Inr sti" "out' ! j = CurrentColor sti" by blast
    moreover have "LEDStep k pal prog st (int (1 + j)) =
        bindE (LEDStep k pal prog st (int 1)) (\<lambda>st'. LEDStep k pal prog st' (int j))"
      by (rule LEDStep_add)
    ultimately show ?thesis using step by (simp add: Suc out)
  qed
qed

lemma show_a: "LEDShow GapSketch pPalette_gap prog_a st_a = Inr (frame_a, st_a)"
  by code_simp

section \<open>Facts about the encoding and the loop\<close>

subsection \<open>Bits and bytes\<close>

lemma length_bits_mode: "(n AND LENGTH_MASK) AND MODE_MASK = (0::byte)"
  by (simp add: and.assoc)

lemma simple_byte_mode: "(MODE_SIMPLE OR (n AND LENGTH_MASK)) AND MODE_MASK = MODE_SIMPLE"
  by (simp add: bit.conj_disj_distrib2 and.assoc)

lemma gradient_byte_mode: "(MODE_GRADIENT OR (n AND LENGTH_MASK)) AND MODE_MASK = MODE_GRADIENT"
  by (simp add: bit.conj_disj_distrib2 and.assoc)

lemma simple_byte_length: "(MODE_SIMPLE OR (n AND LENGTH_MASK)) AND LENGTH_MASK = n AND LENGTH_MASK"
  by (simp add: bit.conj_disj_distrib2 and.assoc)

lemma gradient_byte_length: "(MODE_GRADIENT OR (n AND LENGTH_MASK)) AND LENGTH_MASK = n AND LENGTH_MASK"
  by (simp add: bit.conj_disj_distrib2 and.assoc)

lemma length_bits_le_63: "unat (x AND LENGTH_MASK) \<le> 63"
proof -
  have "x AND LENGTH_MASK \<le> LENGTH_MASK" by (rule word_and_le1)
  then have "unat (x AND LENGTH_MASK) \<le> unat LENGTH_MASK" by (simp add: word_le_nat_alt)
  then show ?thesis by simp
qed

lemma uint_add_times: "uint (x + of_nat n * y) = (uint (x::byte) + int n * sint (y::byte)) mod 256"
proof -
  have "x + of_nat n * y = word_of_int (uint x + int n * sint y)" by simp
  then have "uint (x + of_nat n * y) = uint (word_of_int (uint x + int n * sint y) :: byte)"
    by (rule arg_cong)
  also have "\<dots> = (uint x + int n * sint y) mod 256"
    by (simp only: uint_word_of_int) simp
  finally show ?thesis .
qed

lemma unat_pred: "0 < x \<Longrightarrow> unat (x - 1) = unat (x::byte) - 1"
  by (simp add: unat_minus_one word_greater_zero_iff)

subsection \<open>Encoded operations\<close>

lemma encode_nonempty: "encode c \<noteq> []"
  by (cases c) simp_all

lemma hd_encode_not_END: "hd (encode c) \<noteq> MODE_END"
proof (cases c)
  case (Gap n)
  have "(n AND LENGTH_MASK) AND MODE_MASK = 0" by (rule length_bits_mode)
  then have "n AND LENGTH_MASK \<noteq> MODE_END" by auto
  then show ?thesis by (simp add: Gap)
next
  case (Simple n i)
  have "(MODE_SIMPLE OR (n AND LENGTH_MASK)) AND MODE_MASK = MODE_SIMPLE" by (rule simple_byte_mode)
  then have "MODE_SIMPLE OR (n AND LENGTH_MASK) \<noteq> MODE_END" by auto
  then show ?thesis by (simp add: Simple)
next
  case (Gradient n i x y z)
  have "(MODE_GRADIENT OR (n AND LENGTH_MASK)) AND MODE_MASK = MODE_GRADIENT" by (rule gradient_byte_mode)
  then have "MODE_GRADIENT OR (n AND LENGTH_MASK) \<noteq> MODE_END" by auto
  then show ?thesis by (simp add: Gradient)
qed

lemma switch_op_encoded:
  assumes "holds_at prog p c" "op_ok k c"
  shows "switch_op k pal prog (hd (encode c)) (p + 1) st =
           (if pal_ok pal c then Inr (p + length (encode c), load_op pal c st)
            else Inl PaletteOverrun)"
proof (cases c)
  case (Gap n)
  with assms(2) have "k = GapSketch" by (cases k) simp_all
  then show ?thesis by (simp add: Gap switch_op_def length_bits_mode)
next
  case (Simple n i)
  from assms(1) have "p + 1 < length prog" "prog ! (p + 1) = i"
    using Simple by (auto simp add: holds_at_def dest: spec [of _ 1])
  then show ?thesis
    by (simp add: Simple switch_op_def Let_def simple_byte_mode simple_byte_length read_rle_def load_palette_eq)
next
  case (Gradient n i x y z)
  from assms(1) have "p + 4 < length prog" "prog ! Suc p = i" "prog ! Suc (Suc p) = x"
      "prog ! Suc (Suc (Suc p)) = y" "prog ! Suc (Suc (Suc (Suc p))) = z"
    using Gradient
    by (auto simp add: holds_at_def
        dest: spec [of _ 1] spec [of _ 2] spec [of _ "Suc (Suc (Suc 0))"]
              spec [of _ "Suc (Suc (Suc (Suc 0)))"])
  then show ?thesis
    by (simp add: Gradient switch_op_def Let_def gradient_byte_mode gradient_byte_length read_rle_def load_palette_eq load_deltas_eq)
qed

lemma offs_0: "offs ops 0 = 0"
  by (simp add: offs_def)

lemma offs_Suc: "j < length ops \<Longrightarrow> offs ops (Suc j) = offs ops j + length (encode (ops ! j))"
  by (simp add: offs_def take_Suc_conv_app_nth)

lemma assemble_split:
  assumes "j < length ops"
  shows "assemble ops =
           concat (map encode (take j ops)) @ encode (ops ! j)
             @ concat (map encode (drop (Suc j) ops)) @ [MODE_END]"
proof -
  have "ops = take j ops @ ops ! j # drop (Suc j) ops"
    using assms by (rule id_take_nth_drop)
  then have "concat (map encode ops) =
      concat (map encode (take j ops @ ops ! j # drop (Suc j) ops))" by simp
  then show ?thesis by (simp add: assemble_def)
qed

lemma holds_at_assemble:
  assumes "j < length ops"
  shows "holds_at (assemble ops) (offs ops j) (ops ! j)"
proof -
  let ?A = "concat (map encode (take j ops))"
  let ?R = "concat (map encode (drop (Suc j) ops)) @ [MODE_END]"
  have split: "assemble ops = ?A @ encode (ops ! j) @ ?R"
    using assms by (simp add: assemble_split [of j])
  have len: "offs ops j = length ?A" by (simp add: offs_def)
  show ?thesis
    unfolding holds_at_def split len
    by (simp add: nth_append)
qed

lemma assemble_at_end:
  "offs ops (length ops) < length (assemble ops)"
  "assemble ops ! offs ops (length ops) = MODE_END"
  by (simp_all add: offs_def assemble_def nth_append)

lemma holds_at_hd:
  assumes "holds_at prog p c"
  shows "read_rle prog p = Inr (hd (encode c))"
proof -
  have ne: "encode c \<noteq> []" by (rule encode_nonempty)
  then have pos: "0 < length (encode c)" by simp
  from assms have le: "p + length (encode c) \<le> length prog"
    and nth: "\<forall>i < length (encode c). prog ! (p + i) = encode c ! i"
    by (simp_all add: holds_at_def)
  from pos le have "p < length prog" by linarith
  moreover from nth pos have "prog ! (p + 0) = encode c ! 0" by blast
  ultimately show ?thesis using ne by (simp add: read_rle_def hd_conv_nth)
qed

lemma LEDStep_iter_boundary:
  assumes z: "iCount st = 0" and start: "pRLEStart st = 0"
    and j: "j \<le> length ops" and ne: "ops \<noteq> []" and ok: "list_all (op_ok k) ops"
  shows "LEDStep_iter k pal (assemble ops) (offs ops j, st) =
           (if pal_ok pal (ops ! next_op ops j)
            then Inr (offs ops (Suc (next_op ops j)), load_op pal (ops ! next_op ops j) st)
            else Inl PaletteOverrun)"
proof -
  let ?i = "next_op ops j"
  have i: "?i < length ops" using ne by (simp add: next_op_def)
  have h: "holds_at (assemble ops) (offs ops ?i) (ops ! ?i)"
    using i by (rule holds_at_assemble)
  have okc: "op_ok k (ops ! ?i)" using ok i by (simp add: list_all_length)
  have sw: "switch_op k pal (assemble ops) (hd (encode (ops ! ?i))) (offs ops ?i + 1) st =
      (if pal_ok pal (ops ! ?i) then Inr (offs ops (Suc ?i), load_op pal (ops ! ?i) st)
       else Inl PaletteOverrun)"
    using switch_op_encoded [OF h okc] i by (simp add: offs_Suc)
  show ?thesis
  proof (cases "j < length ops")
    case True
    then have eq: "?i = j" by (simp add: next_op_def)
    from h have rd: "read_rle (assemble ops) (offs ops j) = Inr (hd (encode (ops ! j)))"
      unfolding eq by (rule holds_at_hd)
    show ?thesis
      using sw unfolding eq
      by (simp add: LEDStep_iter_decode [OF z] rd hd_encode_not_END)
  next
    case False
    with j have jl: "j = length ops" by simp
    then have eq: "?i = 0" by (simp add: next_op_def)
    have rd: "read_rle (assemble ops) (offs ops j) = Inr MODE_END"
      unfolding jl using assemble_at_end [of ops] by (simp add: read_rle_def)
    from h have rd0: "read_rle (assemble ops) 0 = Inr (hd (encode (ops ! 0)))"
      unfolding eq offs_0 by (rule holds_at_hd)
    show ?thesis
      using sw unfolding eq
      by (simp add: LEDStep_iter_decode [OF z] rd rd0 start offs_0)
  qed
qed

subsection \<open>The continuation branch\<close>

lemma run_on_0: "run_on 0 st = st"
  by (simp add: run_on_def)

lemma LEDStep_iter_cont_run:
  "iCount st > 0 \<Longrightarrow> LEDStep_iter k pal prog (s, st) = Inr (s, run_on (Suc 0) st)"
  by (simp add: LEDStep_iter_cont run_on_def)

lemma run_on_Suc:
  "run_on n (run_on (Suc 0) st) = run_on (Suc n) st"
  by (simp add: run_on_def algebra_simps)

lemma LEDStep_loop_cont:
  "n \<le> unat (iCount st) \<Longrightarrow> LEDStep_loop k pal prog n (s, st) = Inr (s, run_on n st)"
proof (induction n arbitrary: st)
  case 0
  show ?case by (simp add: run_on_0)
next
  case (Suc n)
  from Suc.prems have "unat (iCount st) \<noteq> 0" by simp
  then have "iCount st \<noteq> 0" by (simp add: unat_eq_0)
  then have pos: "0 < iCount st" by (simp add: word_greater_zero_iff)
  then have "unat (iCount (run_on (Suc 0) st)) = unat (iCount st) - 1"
    by (simp add: run_on_def unat_pred)
  with Suc.prems have "n \<le> unat (iCount (run_on (Suc 0) st))" by simp
  then have "LEDStep_loop k pal prog n (s, run_on (Suc 0) st) =
      Inr (s, run_on n (run_on (Suc 0) st))"
    by (rule Suc.IH)
  then show ?case by (simp add: LEDStep_iter_cont_run [OF pos] run_on_Suc)
qed

lemma LEDStep_cont:
  "n \<le> unat (iCount st) \<Longrightarrow> LEDStep k pal prog st (int n) = Inr (run_on n st)"
  by (simp add: LEDStep_def LEDStep_loop_cont run_on_def)

subsection \<open>The decoding branch\<close>

lemma LEDStep_decodes:
  assumes "decodes prog st"
  shows "LEDStep k pal prog st 1 =
           bindE (switch_op k pal prog (decoded_op prog st) (param_cursor prog st) st)
             (\<lambda>(s', st'). Inr (st'\<lparr>pRLE := s'\<rparr>))"
proof -
  from assms have z: "iCount st = 0" and rd: "read_rle prog (pRLE st) = Inr (prog ! pRLE st)"
    by (simp_all add: decodes_def read_rle_def)
  show ?thesis
  proof (cases "prog ! pRLE st = MODE_END")
    case True
    with assms have "read_rle prog (pRLEStart st) = Inr (prog ! pRLEStart st)"
      by (simp add: decodes_def read_rle_def)
    with True show ?thesis
      by (simp add: LEDStep_one LEDStep_iter_decode [OF z] rd decoded_op_def param_cursor_def)
  next
    case False
    then show ?thesis
      by (simp add: LEDStep_one LEDStep_iter_decode [OF z] rd decoded_op_def param_cursor_def)
  qed
qed

lemma switch_op_gap:
  "op AND MODE_MASK = MODE_GAP \<Longrightarrow>
     switch_op GapSketch pal prog op s1 st =
       Inr (s1, st\<lparr>iCount := op AND LENGTH_MASK, lastOP := MODE_GAP, r := 0, g := 0, b := 0\<rparr>)"
  by (simp add: switch_op_def)

lemma switch_op_pulse:
  "op AND MODE_MASK = MODE_PULSE \<Longrightarrow>
     switch_op PulseSketch pal prog op s1 st =
       Inr (s1, st\<lparr>iCount := op AND LENGTH_MASK, lastOP := MODE_PULSE\<rparr>)"
  by (simp add: switch_op_def)

lemma LEDStep_pulse_opcode:
  assumes "decodes prog st" "decoded_op prog st AND MODE_MASK = MODE_PULSE"
  shows "LEDStep PulseSketch pal prog st 1 =
           Inr (st\<lparr>iCount := decoded_op prog st AND LENGTH_MASK, lastOP := MODE_PULSE,
                   pRLE := param_cursor prog st\<rparr>)"
  using LEDStep_decodes [OF assms(1)] switch_op_pulse [OF assms(2)] by simp

text \<open>
  A byte with both mode bits set matches no \<^verbatim>\<open>case\<close> of the \<^verbatim>\<open>switch\<close>, in either sketch;
  unless it is \<^verbatim>\<open>MODE_END\<close> itself, its length bits are not all 0.
\<close>

lemma switch_op_end_bits:
  "op AND MODE_MASK = MODE_END \<Longrightarrow>
     switch_op k pal prog op s1 st =
       Inr (s1, st\<lparr>iCount := op AND LENGTH_MASK, lastOP := MODE_END\<rparr>)"
  by (simp add: switch_op_def)

lemma end_bits_length:
  assumes "op AND MODE_MASK = MODE_END" "op \<noteq> MODE_END"
  shows "op AND LENGTH_MASK \<noteq> (0::byte)"
proof
  assume z: "op AND LENGTH_MASK = 0"
  have full: "MODE_MASK OR LENGTH_MASK = (- 1 :: byte)" by simp
  have "op = op AND (MODE_MASK OR LENGTH_MASK)" by (simp only: full) simp
  also have "\<dots> = (op AND MODE_MASK) OR (op AND LENGTH_MASK)"
    by (simp only: bit.conj_disj_distrib)
  also have "\<dots> = MODE_END" by (simp only: assms(1) z) simp
  finally show False using assms(2) by simp
qed

lemma switch_op_gradient:
  assumes "op AND MODE_MASK = MODE_GRADIENT" "s1 + 3 < length prog"
    "3 * unat (prog ! s1) + 2 < length pal"
  shows "switch_op k pal prog op s1 st =
       Inr (s1 + 4, st\<lparr>iCount := op AND LENGTH_MASK, lastOP := MODE_GRADIENT,
              r := pal ! (3 * unat (prog ! s1)), g := pal ! (3 * unat (prog ! s1) + 1),
              b := pal ! (3 * unat (prog ! s1) + 2),
              dr := prog ! (s1 + 1), dg := prog ! (s1 + 2), db := prog ! (s1 + 3)\<rparr>)"
proof -
  have n3: "s1 + 3 = Suc (Suc (Suc s1))" by simp
  show ?thesis
    using assms unfolding n3
    by (simp add: switch_op_def Let_def read_rle_def load_palette_eq load_deltas_eq)
qed

lemma switch_op_fields:
  assumes "switch_op k pal prog op s1 st = Inr (s', st')"
  shows "s1 \<le> s' \<and> lastOP st' = op AND MODE_MASK \<and> iCount st' = op AND LENGTH_MASK
           \<and> pRLEStart st' = pRLEStart st"
proof -
  consider (gap) "op AND MODE_MASK = MODE_GAP \<and> k = GapSketch"
    | (simple) "\<not> (op AND MODE_MASK = MODE_GAP \<and> k = GapSketch)"
        "op AND MODE_MASK = MODE_SIMPLE"
    | (gradient) "\<not> (op AND MODE_MASK = MODE_GAP \<and> k = GapSketch)"
        "op AND MODE_MASK \<noteq> MODE_SIMPLE" "op AND MODE_MASK = MODE_GRADIENT"
    | (other) "\<not> (op AND MODE_MASK = MODE_GAP \<and> k = GapSketch)"
        "op AND MODE_MASK \<noteq> MODE_SIMPLE" "op AND MODE_MASK \<noteq> MODE_GRADIENT"
    by blast
  then show ?thesis
  proof cases
    case gap
    with assms show ?thesis by (auto simp add: switch_op_def Let_def)
  next
    case simple
    with assms show ?thesis
      by (cases "read_rle prog s1")
         (auto simp add: switch_op_def Let_def load_palette_eq split: if_splits)
  next
    case gradient
    with assms show ?thesis
      by (cases "read_rle prog s1")
         (auto simp add: switch_op_def Let_def load_palette_eq load_deltas_eq split: if_splits)
  next
    case other
    with assms show ?thesis by (auto simp add: switch_op_def Let_def)
  qed
qed

lemma pSimple1_run: "bindE (LEDInit PulseSketch pPalette pSimple1 60) (\<lambda>st. LEDStep PulseSketch pPalette pSimple1 st 59) = Inr st_end"
  by code_simp

subsection \<open>The remaining count\<close>

lemma load_pulse_iCount:
  "load_pulse prog s st = Inr (s', st') \<Longrightarrow> iCount st' = iCount st"
  by (auto simp add: load_pulse_def bindE_Inr_iff)

lemma LEDInit_switch:
  "LEDInit k pal prog n =
     bindE (read_rle prog 0) (\<lambda>op.
     bindE (if op AND MODE_MASK = MODE_PULSE \<and> k = PulseSketch
            then load_pulse prog 1
                   (memset0\<lparr>pRLEStart := 0, iLen := n, iCount := op AND LENGTH_MASK,
                      lastOP := op AND MODE_MASK\<rparr>)
            else switch_op k pal prog op 1 (memset0\<lparr>pRLEStart := 0, iLen := n\<rparr>))
       (\<lambda>(s, st). Inr (st\<lparr>pRLE := s\<rparr>)))"
proof (cases "read_rle prog 0")
  case (Inl e)
  then show ?thesis by (simp add: LEDInit_def)
next
  case (Inr op)
  consider (zero) "op AND MODE_MASK = MODE_PULSE"
    | (simple) "op AND MODE_MASK = MODE_SIMPLE"
    | (gradient) "op AND MODE_MASK = MODE_GRADIENT"
    | (other) "op AND MODE_MASK \<noteq> MODE_PULSE" "op AND MODE_MASK \<noteq> MODE_SIMPLE"
        "op AND MODE_MASK \<noteq> MODE_GRADIENT"
    by blast
  then show ?thesis
  proof cases
    case zero
    then show ?thesis
      by (cases k) (simp_all add: LEDInit_def Inr switch_op_def memset0_def)
  next
    case simple
    then show ?thesis by (simp add: LEDInit_def Inr switch_op_def numeral_2_eq_2 [symmetric])
  next
    case gradient
    then show ?thesis by (simp add: LEDInit_def Inr switch_op_def numeral_2_eq_2 [symmetric])
  next
    case other
    then show ?thesis by (simp add: LEDInit_def Inr switch_op_def)
  qed
qed

lemma LEDInit_iCount:
  assumes "LEDInit k pal prog n = Inr st"
  shows "unat (iCount st) \<le> 63"
proof -
  from assms obtain op s1 st1 where
    tail: "(if op AND MODE_MASK = MODE_PULSE \<and> k = PulseSketch
            then load_pulse prog 1
                   (memset0\<lparr>pRLEStart := 0, iLen := n, iCount := op AND LENGTH_MASK,
                      lastOP := op AND MODE_MASK\<rparr>)
            else switch_op k pal prog op 1 (memset0\<lparr>pRLEStart := 0, iLen := n\<rparr>))
           = Inr (s1, st1)"
    and st: "st = st1\<lparr>pRLE := s1\<rparr>"
    unfolding LEDInit_switch bindE_Inr_iff by auto
  have "iCount st1 = op AND LENGTH_MASK"
  proof (cases "op AND MODE_MASK = MODE_PULSE \<and> k = PulseSketch")
    case True
    with tail show ?thesis by (auto dest: load_pulse_iCount)
  next
    case False
    with tail show ?thesis by (auto dest: switch_op_fields)
  qed
  then show ?thesis by (simp add: st length_bits_le_63)
qed

lemma LEDStep_iter_iCount:
  assumes "LEDStep_iter k pal prog (s, st) = Inr (s', st')" "unat (iCount st) \<le> 63"
  shows "unat (iCount st') \<le> 63"
proof (cases "0 < iCount st")
  case True
  with assms(1) have "st' = run_on (Suc 0) st" by (simp add: LEDStep_iter_cont_run)
  with True assms(2) show ?thesis by (simp add: run_on_def unat_pred)
next
  case False
  then have z: "iCount st = 0" by (simp add: word_greater_zero_iff)
  from assms(1) have "\<exists>op s1. switch_op k pal prog op s1 st = Inr (s', st')"
    by (auto simp add: LEDStep_iter_decode [OF z] bindE_Inr_iff split: if_splits)
  then obtain op where "iCount st' = op AND LENGTH_MASK" by (auto dest: switch_op_fields)
  then show ?thesis by (simp add: length_bits_le_63)
qed

lemma LEDStep_loop_iCount:
  "LEDStep_loop k pal prog n (s, st) = Inr (s', st') \<Longrightarrow> unat (iCount st) \<le> 63
     \<Longrightarrow> unat (iCount st') \<le> 63"
proof (induction n arbitrary: s st)
  case 0
  then show ?case by simp
next
  case (Suc n)
  from Suc.prems(1) obtain s1 st1 where
    a: "LEDStep_iter k pal prog (s, st) = Inr (s1, st1)" and
    b: "LEDStep_loop k pal prog n (s1, st1) = Inr (s', st')"
    by (auto simp add: bindE_Inr_iff)
  from a Suc.prems(2) have "unat (iCount st1) \<le> 63" by (rule LEDStep_iter_iCount)
  with b show ?case by (rule Suc.IH)
qed

lemma LEDStep_iCount:
  assumes "LEDStep k pal prog st c = Inr st'" "unat (iCount st) \<le> 63"
  shows "unat (iCount st') \<le> 63"
proof -
  from assms(1) obtain s1 st1 where
    "LEDStep_loop k pal prog (nat c) (pRLE st, st) = Inr (s1, st1)" "st' = st1\<lparr>pRLE := s1\<rparr>"
    by (auto simp add: LEDStep_def bindE_Inr_iff)
  with assms(2) show ?thesis by (auto dest: LEDStep_loop_iCount)
qed

lemma LEDPulse_iCount: "iCount (LEDPulse st) = iCount st"
  by (simp add: LEDPulse_def Let_def)

lemma reachable_iCount: "reachable k pal prog st \<Longrightarrow> unat (iCount st) \<le> 63"
proof (induction rule: reachable.induct)
  case (init n st)
  then show ?case by (rule LEDInit_iCount)
next
  case (step st c st')
  then show ?case by (auto intro: LEDStep_iCount)
next
  case (pulse st)
  then show ?case by (simp add: LEDPulse_iCount)
qed

lemma LEDStep_one_decodes:
  assumes "iCount st = 0" "LEDStep k pal prog st 1 = Inr st'"
  shows "decodes prog st"
proof -
  from assms(2) have "\<exists>op0. read_rle prog (pRLE st) = Inr op0
      \<and> (op0 = MODE_END \<longrightarrow> (\<exists>op1. read_rle prog (pRLEStart st) = Inr op1))"
    by (auto simp add: LEDStep_one LEDStep_iter_decode [OF assms(1)] bindE_Inr_iff
        split: if_splits)
  then obtain op0 where
    rd: "read_rle prog (pRLE st) = Inr op0" and
    rest: "op0 = MODE_END \<longrightarrow> (\<exists>op1. read_rle prog (pRLEStart st) = Inr op1)"
    by blast
  from rd have "pRLE st < length prog" "op0 = prog ! pRLE st"
    by (simp_all add: read_rle_def split: if_splits)
  moreover from rest have "op0 = MODE_END \<longrightarrow> pRLEStart st < length prog"
    by (auto simp add: read_rle_def split: if_splits)
  ultimately show ?thesis using assms(1) by (simp add: decodes_def)
qed

lemma init_a: "LEDInit GapSketch pPalette_gap prog_a 5 = Inr st_a"
  by code_simp

lemma step_a: "LEDStep GapSketch pPalette_gap prog_a st_a 1 = Inr st_b"
  by code_simp

subsection \<open>Assembled programs\<close>

lemma load_op_fields [simp]:
  "pRLEStart (load_op pal c st) = pRLEStart st"
  "iCount (load_op pal c st) = run_field c"
  "pRLE (load_op pal c st) = pRLE st"
  by (cases c; simp)+

lemma run_on_fields [simp]:
  "pRLEStart (run_on n st) = pRLEStart st"
  "iCount (run_on n st) = iCount st - of_nat n"
  "pRLE (run_on n st) = pRLE st"
  by (simp_all add: run_on_def)

lemma hd_encode_mode0:
  "hd (encode c) AND MODE_MASK = MODE_PULSE \<Longrightarrow> op_ok PulseSketch c \<Longrightarrow> False"
  by (cases c) (simp_all add: simple_byte_mode gradient_byte_mode)

lemma LEDInit_assemble:
  assumes ne: "ops \<noteq> []" and ok: "list_all (op_ok k) ops"
  shows "LEDInit k pal (assemble ops) n =
           (if pal_ok pal (ops ! 0)
            then Inr ((load_op pal (ops ! 0) (memset0\<lparr>pRLEStart := 0, iLen := n\<rparr>))
                        \<lparr>pRLE := offs ops 1\<rparr>)
            else Inl PaletteOverrun)"
proof -
  from ne have l: "0 < length ops" by simp
  then have h: "holds_at (assemble ops) (offs ops 0) (ops ! 0)" by (rule holds_at_assemble)
  then have h0: "holds_at (assemble ops) 0 (ops ! 0)" by (simp add: offs_0)
  then have rd: "read_rle (assemble ops) 0 = Inr (hd (encode (ops ! 0)))" by (rule holds_at_hd)
  from ok l have okc: "op_ok k (ops ! 0)" by (simp add: list_all_length)
  have nopulse: "\<not> (hd (encode (ops ! 0)) AND MODE_MASK = MODE_PULSE \<and> k = PulseSketch)"
    using okc hd_encode_mode0 by blast
  have off1: "offs ops (Suc 0) = length (encode (ops ! 0))"
    using offs_Suc [OF l] by (simp add: offs_0)
  have "LEDInit k pal (assemble ops) n =
      bindE (switch_op k pal (assemble ops) (hd (encode (ops ! 0))) 1
               (memset0\<lparr>pRLEStart := 0, iLen := n\<rparr>))
        (\<lambda>(s, st). Inr (st\<lparr>pRLE := s\<rparr>))"
    by (simp only: LEDInit_switch rd bindE_simps if_not_P [OF nopulse])
  also have "switch_op k pal (assemble ops) (hd (encode (ops ! 0))) 1
               (memset0\<lparr>pRLEStart := 0, iLen := n\<rparr>) =
      (if pal_ok pal (ops ! 0)
       then Inr (offs ops 1, load_op pal (ops ! 0) (memset0\<lparr>pRLEStart := 0, iLen := n\<rparr>))
       else Inl PaletteOverrun)"
    using switch_op_encoded [OF h0 okc, of pal "memset0\<lparr>pRLEStart := 0, iLen := n\<rparr>"]
    by (simp add: off1)
  finally show ?thesis by simp
qed

lemma LEDStep_iter_at_boundary:
  assumes ne: "ops \<noteq> []" and ok: "list_all (op_ok k) ops" and inv: "at_boundary ops x"
  shows "(LEDStep_iter k pal (assemble ops) x = Inl PaletteOverrun \<and> \<not> list_all (pal_ok pal) ops)
       \<or> (\<exists>y. LEDStep_iter k pal (assemble ops) x = Inr y \<and> at_boundary ops y)"
proof -
  obtain s st where x: "x = (s, st)" by (cases x)
  from inv obtain j where start: "pRLEStart st = 0" and j: "1 \<le> j" "j \<le> length ops"
    and s: "s = offs ops j"
    by (auto simp add: at_boundary_def x)
  show ?thesis
  proof (cases "0 < iCount st")
    case True
    then show ?thesis
      using inv by (simp add: x LEDStep_iter_cont_run at_boundary_def)
  next
    case False
    then have z: "iCount st = 0" by (simp add: word_greater_zero_iff)
    let ?i = "next_op ops j"
    have i: "?i < length ops" using ne by (simp add: next_op_def)
    have eq: "LEDStep_iter k pal (assemble ops) (offs ops j, st) =
           (if pal_ok pal (ops ! ?i)
            then Inr (offs ops (Suc ?i), load_op pal (ops ! ?i) st)
            else Inl PaletteOverrun)"
      using z start j(2) ne ok by (rule LEDStep_iter_boundary)
    show ?thesis
    proof (cases "pal_ok pal (ops ! ?i)")
      case True
      have "at_boundary ops (offs ops (Suc ?i), load_op pal (ops ! ?i) st)"
        using i start by (auto simp add: at_boundary_def intro!: exI [of _ "Suc ?i"])
      with True show ?thesis by (simp add: x s eq)
    next
      case False
      with i have "\<not> list_all (pal_ok pal) ops" by (auto simp add: list_all_length)
      with False show ?thesis by (simp add: x s eq)
    qed
  qed
qed

lemma LEDStep_loop_at_boundary:
  assumes ne: "ops \<noteq> []" and ok: "list_all (op_ok k) ops"
  shows "at_boundary ops x \<Longrightarrow>
       (LEDStep_loop k pal (assemble ops) n x = Inl PaletteOverrun
          \<and> \<not> list_all (pal_ok pal) ops)
       \<or> (\<exists>y. LEDStep_loop k pal (assemble ops) n x = Inr y \<and> at_boundary ops y)"
proof (induction n arbitrary: x)
  case 0
  then show ?case by simp
next
  case (Suc n)
  from LEDStep_iter_at_boundary [OF ne ok Suc.prems, of pal]
  show ?case
  proof
    assume "LEDStep_iter k pal (assemble ops) x = Inl PaletteOverrun
        \<and> \<not> list_all (pal_ok pal) ops"
    then show ?thesis by simp
  next
    assume "\<exists>y. LEDStep_iter k pal (assemble ops) x = Inr y \<and> at_boundary ops y"
    then obtain y where y: "LEDStep_iter k pal (assemble ops) x = Inr y" "at_boundary ops y"
      by blast
    from Suc.IH [OF y(2)] show ?thesis by (simp add: y(1))
  qed
qed

subsection \<open>Stale deltas\<close>

lemma same_view_refl: "same_view x x"
  by (simp add: same_view_def)

lemma same_view_elim:
  assumes "same_view x y"
  shows "y = x\<lparr>dr := dr y, dg := dg y, db := db y\<rparr>"
    and "lastOP x = MODE_GRADIENT \<Longrightarrow> y = x"
proof -
  from assms have e: "x\<lparr>dr := 0, dg := 0, db := 0\<rparr> = y\<lparr>dr := 0, dg := 0, db := 0\<rparr>"
    by (simp add: same_view_def)
  have "y = (y\<lparr>dr := 0, dg := 0, db := 0\<rparr>)\<lparr>dr := dr y, dg := dg y, db := db y\<rparr>" by simp
  also have "\<dots> = (x\<lparr>dr := 0, dg := 0, db := 0\<rparr>)\<lparr>dr := dr y, dg := dg y, db := db y\<rparr>"
    by (simp only: e)
  also have "\<dots> = x\<lparr>dr := dr y, dg := dg y, db := db y\<rparr>" by simp
  finally show y: "y = x\<lparr>dr := dr y, dg := dg y, db := db y\<rparr>" .
  assume "lastOP x = MODE_GRADIENT"
  with assms have "dr x = dr y" "dg x = dg y" "db x = db y" by (simp_all add: same_view_def)
  then have "x\<lparr>dr := dr y, dg := dg y, db := db y\<rparr> = x" by simp
  with y show "y = x" by simp
qed

lemma same_view_fields:
  assumes "same_view x y"
  shows "CurrentColor x = CurrentColor y" "pRLE x = pRLE y" "iCount x = iCount y"
    "lastOP x = lastOP y"
proof -
  from assms have y: "y = x\<lparr>dr := dr y, dg := dg y, db := db y\<rparr>" by (rule same_view_elim(1))
  have "CurrentColor (x\<lparr>dr := dr y, dg := dg y, db := db y\<rparr>) = CurrentColor x"
    "pRLE (x\<lparr>dr := dr y, dg := dg y, db := db y\<rparr>) = pRLE x"
    "iCount (x\<lparr>dr := dr y, dg := dg y, db := db y\<rparr>) = iCount x"
    "lastOP (x\<lparr>dr := dr y, dg := dg y, db := db y\<rparr>) = lastOP x"
    by (simp_all add: CurrentColor_def)
  with y show "CurrentColor x = CurrentColor y" "pRLE x = pRLE y" "iCount x = iCount y"
    "lastOP x = lastOP y"
    by simp_all
qed

lemma same_view_intro:
  "lastOP x \<noteq> MODE_GRADIENT \<Longrightarrow> same_view x (x\<lparr>dr := u, dg := v, db := w\<rparr>)"
  by (simp add: same_view_def)

lemma switch_op_deltas:
  "switch_op k pal prog op s1 (st\<lparr>dr := u, dg := v, db := w\<rparr>) =
     (if op AND MODE_MASK = MODE_GRADIENT then switch_op k pal prog op s1 st
      else bindE (switch_op k pal prog op s1 st)
             (\<lambda>(s', st'). Inr (s', st'\<lparr>dr := u, dg := v, db := w\<rparr>)))"
proof -
  consider (gap) "op AND MODE_MASK = MODE_GAP \<and> k = GapSketch"
    | (simple) "\<not> (op AND MODE_MASK = MODE_GAP \<and> k = GapSketch)"
        "op AND MODE_MASK = MODE_SIMPLE"
    | (gradient) "\<not> (op AND MODE_MASK = MODE_GAP \<and> k = GapSketch)"
        "op AND MODE_MASK \<noteq> MODE_SIMPLE" "op AND MODE_MASK = MODE_GRADIENT"
    | (other) "\<not> (op AND MODE_MASK = MODE_GAP \<and> k = GapSketch)"
        "op AND MODE_MASK \<noteq> MODE_SIMPLE" "op AND MODE_MASK \<noteq> MODE_GRADIENT"
    by blast
  then show ?thesis
  proof cases
    case gap
    then show ?thesis by (simp add: switch_op_def Let_def)
  next
    case simple
    then show ?thesis
      by (cases "read_rle prog s1") (simp_all add: switch_op_def Let_def load_palette_eq)
  next
    case gradient
    then show ?thesis
      by (cases "read_rle prog s1")
         (simp_all add: switch_op_def Let_def load_palette_eq load_deltas_eq)
  next
    case other
    then show ?thesis by (auto simp add: switch_op_def Let_def)
  qed
qed

lemma sim_refl: "sim m m"
  by (cases m) (simp_all add: sim_def same_view_refl)

lemma switch_op_sim:
  "sim (switch_op k pal prog op s1 st) (switch_op k pal prog op s1 (st\<lparr>dr := u, dg := v, db := w\<rparr>))"
proof (cases "op AND MODE_MASK = MODE_GRADIENT")
  case True
  then show ?thesis by (simp add: switch_op_deltas sim_refl)
next
  case False
  show ?thesis
  proof (cases "switch_op k pal prog op s1 st")
    case (Inl e)
    with False show ?thesis by (simp add: switch_op_deltas sim_def)
  next
    case (Inr p)
    obtain s' st' where p: "p = (s', st')" by (cases p)
    from Inr p have "lastOP st' = op AND MODE_MASK" by (auto dest: switch_op_fields)
    with False have "lastOP st' \<noteq> MODE_GRADIENT" by simp
    then have "same_view st' (st'\<lparr>dr := u, dg := v, db := w\<rparr>)" by (rule same_view_intro)
    with False show ?thesis by (simp add: switch_op_deltas sim_def Inr p)
  qed
qed

lemma sim_bindE: "(\<And>v. sim (f v) (h v)) \<Longrightarrow> sim (bindE m f) (bindE m h)"
  by (cases m) (simp_all add: sim_def)

lemma LEDStep_iter_sim_deltas:
  assumes ng: "lastOP x \<noteq> MODE_GRADIENT"
  shows "sim (LEDStep_iter k pal prog (s, x))
             (LEDStep_iter k pal prog (s, x\<lparr>dr := u, dg := v, db := w\<rparr>))"
proof (cases "0 < iCount x")
  case True
  then have pos: "0 < iCount (x\<lparr>dr := u, dg := v, db := w\<rparr>)" by simp
  have "run_on (Suc 0) (x\<lparr>dr := u, dg := v, db := w\<rparr>) =
      (run_on (Suc 0) x)\<lparr>dr := u, dg := v, db := w\<rparr>"
    using ng by (simp add: run_on_def)
  moreover have "lastOP (run_on (Suc 0) x) \<noteq> MODE_GRADIENT"
    using ng by (simp add: run_on_def)
  ultimately show ?thesis
    by (simp add: LEDStep_iter_cont_run [OF True] LEDStep_iter_cont_run [OF pos]
        sim_def same_view_intro)
next
  case False
  then have z: "iCount x = 0" by (simp add: word_greater_zero_iff)
  then have z': "iCount (x\<lparr>dr := u, dg := v, db := w\<rparr>) = 0" by simp
  have dy: "LEDStep_iter k pal prog (s, x\<lparr>dr := u, dg := v, db := w\<rparr>) =
     bindE (read_rle prog s) (\<lambda>op0.
       if op0 = MODE_END
       then bindE (read_rle prog (pRLEStart x))
              (\<lambda>op1. switch_op k pal prog op1 (pRLEStart x + 1)
                        (x\<lparr>dr := u, dg := v, db := w\<rparr>))
       else switch_op k pal prog op0 (s + 1) (x\<lparr>dr := u, dg := v, db := w\<rparr>))"
    unfolding LEDStep_iter_decode [OF z'] by (simp cong: if_cong)
  show ?thesis
    unfolding LEDStep_iter_decode [OF z] dy
    by (intro sim_bindE) (simp add: sim_bindE switch_op_sim cong: if_cong)
qed

lemma LEDStep_iter_sim:
  assumes "same_view x y"
  shows "sim (LEDStep_iter k pal prog (s, x)) (LEDStep_iter k pal prog (s, y))"
proof (cases "lastOP x = MODE_GRADIENT")
  case True
  with assms have "y = x" by (rule same_view_elim(2))
  then show ?thesis by (simp add: sim_refl)
next
  case False
  from assms have y: "y = x\<lparr>dr := dr y, dg := dg y, db := db y\<rparr>" by (rule same_view_elim(1))
  have "sim (LEDStep_iter k pal prog (s, x))
            (LEDStep_iter k pal prog (s, x\<lparr>dr := dr y, dg := dg y, db := db y\<rparr>))"
    using False by (rule LEDStep_iter_sim_deltas)
  with y show ?thesis by simp
qed

lemma LEDStep_loop_sim:
  "same_view x y \<Longrightarrow>
     sim (LEDStep_loop k pal prog n (s, x)) (LEDStep_loop k pal prog n (s, y))"
proof (induction n arbitrary: s x y)
  case 0
  then show ?case by (simp add: sim_def)
next
  case (Suc n)
  from Suc.prems have st: "sim (LEDStep_iter k pal prog (s, x)) (LEDStep_iter k pal prog (s, y))"
    by (rule LEDStep_iter_sim)
  show ?case
  proof (cases "LEDStep_iter k pal prog (s, x)")
    case (Inl e)
    with st show ?thesis by (simp add: sim_def)
  next
    case (Inr p)
    obtain s1 x1 where p: "p = (s1, x1)" by (cases p)
    from st Inr p obtain y1 where
      q: "LEDStep_iter k pal prog (s, y) = Inr (s1, y1)" and v: "same_view x1 y1"
      by (cases "LEDStep_iter k pal prog (s, y)") (auto simp add: sim_def)
    from Suc.IH [OF v] show ?thesis by (simp add: Inr p q)
  qed
qed

subsection \<open>One period\<close>

lemma frame_eq_refl: "frame_eq x x"
  by (simp add: frame_eq_def)

lemma frame_eq_trans: "frame_eq x y \<Longrightarrow> frame_eq y z \<Longrightarrow> frame_eq x z"
  by (simp add: frame_eq_def)

lemma frame_eq_load_op: "frame_eq st (load_op pal c st)"
  by (cases c) (simp_all add: frame_eq_def)

lemma frame_eq_run_on: "frame_eq st (run_on n st)"
  by (simp add: frame_eq_def run_on_def)

lemma frame_eq_pRLE: "frame_eq x y \<Longrightarrow> pRLE x = pRLE y"
proof -
  assume "frame_eq x y"
  then have "pRLE (x\<lparr>iCount := 0, lastOP := 0, r := 0, g := 0, b := 0, dr := 0, dg := 0, db := 0\<rparr>)
     = pRLE (y\<lparr>iCount := 0, lastOP := 0, r := 0, g := 0, b := 0, dr := 0, dg := 0, db := 0\<rparr>)"
    unfolding frame_eq_def by (rule arg_cong)
  then show ?thesis by simp
qed

lemma frame_eq_elim:
  assumes "frame_eq x y"
  shows "y = x\<lparr>iCount := iCount y, lastOP := lastOP y, r := r y, g := g y, b := b y,
                dr := dr y, dg := dg y, db := db y\<rparr>"
proof -
  let ?Z = "\<lambda>q. q\<lparr>iCount := 0, lastOP := 0, r := 0, g := 0, b := 0, dr := 0, dg := 0, db := 0\<rparr>"
  let ?U = "\<lambda>q. q\<lparr>iCount := iCount y, lastOP := lastOP y, r := r y, g := g y, b := b y,
                dr := dr y, dg := dg y, db := db y\<rparr>"
  from assms have e: "?Z x = ?Z y" by (simp add: frame_eq_def)
  have "y = ?U (?Z y)" by simp
  also have "\<dots> = ?U (?Z x)" by (simp only: e)
  also have "\<dots> = ?U x" by simp
  finally show ?thesis .
qed

lemma same_view_load_op_upd:
  "same_view (load_op pal c x)
     (load_op pal c (x\<lparr>iCount := a1, lastOP := a2, r := a3, g := a4, b := a5,
                        dr := a6, dg := a7, db := a8\<rparr>))"
  by (cases c) (simp_all add: same_view_def)

lemma same_view_load_op:
  assumes "frame_eq x y"
  shows "same_view (load_op pal c x) (load_op pal c y)"
proof -
  have "same_view (load_op pal c x)
     (load_op pal c (x\<lparr>iCount := iCount y, lastOP := lastOP y, r := r y, g := g y, b := b y,
                dr := dr y, dg := dg y, db := db y\<rparr>))"
    by (rule same_view_load_op_upd)
  with frame_eq_elim [OF assms] show ?thesis by simp
qed

lemma LEDStep_loop_cycle:
  assumes ne: "ops \<noteq> []" and ok: "list_all (op_ok k) ops"
    and palok: "list_all (pal_ok pal) ops"
  shows "j \<le> length ops \<Longrightarrow> iCount st = 0 \<Longrightarrow> pRLEStart st = 0 \<Longrightarrow>
     \<exists>st'. LEDStep_loop k pal (assemble ops) (sum_list (map run_length (drop j ops)) + 1)
              (offs ops j, st) = Inr (offs ops 1, load_op pal (ops ! 0) st')
           \<and> frame_eq st st'"
proof (induction d \<equiv> "length ops - j" arbitrary: j st)
  case 0
  then have j: "j = length ops" by simp
  then have nx: "next_op ops j = 0" by (simp add: next_op_def)
  from ne palok have p0: "pal_ok pal (ops ! 0)" by (simp add: list_all_length)
  have "LEDStep_iter k pal (assemble ops) (offs ops j, st) =
      Inr (offs ops 1, load_op pal (ops ! 0) st)"
    using LEDStep_iter_boundary [OF "0.prems"(2,3,1) ne ok, of pal] p0 by (simp add: nx)
  then show ?case by (auto simp add: j frame_eq_refl)
next
  case (Suc d)
  then have j: "j < length ops" by simp
  let ?c = "ops ! j"
  let ?f = "unat (run_field ?c)"
  let ?R = "sum_list (map run_length (drop (Suc j) ops))"
  let ?st1 = "load_op pal ?c st"
  let ?st2 = "run_on ?f ?st1"
  have nx: "next_op ops j = j" using j by (simp add: next_op_def)
  from j palok have pj: "pal_ok pal ?c" by (simp add: list_all_length)
  have it: "LEDStep_iter k pal (assemble ops) (offs ops j, st) = Inr (offs ops (Suc j), ?st1)"
    using LEDStep_iter_boundary [OF Suc.prems(2,3,1) ne ok, of pal] pj by (simp add: nx)
  have run: "LEDStep_loop k pal (assemble ops) ?f (offs ops (Suc j), ?st1) =
      Inr (offs ops (Suc j), ?st2)"
    by (rule LEDStep_loop_cont) simp
  have d: "d = length ops - Suc j" using Suc.hyps(2) by simp
  have "Suc j \<le> length ops" using j by simp
  moreover have "iCount ?st2 = 0" by simp
  moreover have "pRLEStart ?st2 = 0" using Suc.prems(3) by simp
  ultimately obtain st' where
    rest: "LEDStep_loop k pal (assemble ops) (?R + 1) (offs ops (Suc j), ?st2) =
        Inr (offs ops 1, load_op pal (ops ! 0) st')"
    and fr: "frame_eq ?st2 st'"
    using Suc.hyps(1) [OF d] by blast
  have cnt: "sum_list (map run_length (drop j ops)) + 1 = Suc (?f + (?R + 1))"
    using j by (simp add: Cons_nth_drop_Suc [symmetric] run_length_def)
  have "LEDStep_loop k pal (assemble ops) (Suc (?f + (?R + 1))) (offs ops j, st) =
      LEDStep_loop k pal (assemble ops) (?f + (?R + 1)) (offs ops (Suc j), ?st1)"
    by (simp only: LEDStep_loop.simps it bindE_simps)
  also have "\<dots> = bindE (LEDStep_loop k pal (assemble ops) ?f (offs ops (Suc j), ?st1))
      (LEDStep_loop k pal (assemble ops) (?R + 1))"
    by (rule LEDStep_loop_add)
  also have "\<dots> = Inr (offs ops 1, load_op pal (ops ! 0) st')"
    by (simp only: run bindE_simps rest)
  finally have "LEDStep_loop k pal (assemble ops) (sum_list (map run_length (drop j ops)) + 1)
      (offs ops j, st) = Inr (offs ops 1, load_op pal (ops ! 0) st')"
    by (simp only: cnt)
  moreover have "frame_eq st st'"
    using frame_eq_load_op frame_eq_run_on fr by (blast intro: frame_eq_trans)
  ultimately show ?case by blast
qed

lemma same_view_pRLE_eq: "same_view x y \<Longrightarrow> pRLE x = pRLE y"
proof -
  assume "same_view x y"
  then have "pRLE (x\<lparr>dr := 0, dg := 0, db := 0\<rparr>) = pRLE (y\<lparr>dr := 0, dg := 0, db := 0\<rparr>)"
    unfolding same_view_def by (auto intro: arg_cong)
  then show ?thesis by simp
qed

lemma same_view_pRLE_update:
  assumes "same_view x y"
  shows "same_view (x\<lparr>pRLE := s\<rparr>) (y\<lparr>pRLE := s\<rparr>)"
proof (cases "lastOP x = MODE_GRADIENT")
  case True
  with assms have "y = x" by (rule same_view_elim(2))
  then show ?thesis by (simp add: same_view_refl)
next
  case False
  from assms have "y = x\<lparr>dr := dr y, dg := dg y, db := db y\<rparr>" by (rule same_view_elim(1))
  then have "y\<lparr>pRLE := s\<rparr> = (x\<lparr>dr := dr y, dg := dg y, db := db y\<rparr>)\<lparr>pRLE := s\<rparr>"
    by (rule arg_cong)
  then have "y\<lparr>pRLE := s\<rparr> = (x\<lparr>pRLE := s\<rparr>)\<lparr>dr := dr y, dg := dg y, db := db y\<rparr>"
    by simp
  moreover have "same_view (x\<lparr>pRLE := s\<rparr>) ((x\<lparr>pRLE := s\<rparr>)\<lparr>dr := dr y, dg := dg y, db := db y\<rparr>)"
    using False by (intro same_view_intro) simp
  ultimately show ?thesis by simp
qed

lemma LEDStep_sim:
  assumes "same_view x y" "LEDStep k pal prog x c = Inr x'"
  shows "\<exists>y'. LEDStep k pal prog y c = Inr y' \<and> same_view x' y'"
proof -
  from assms(1) have p: "pRLE y = pRLE x" by (simp add: same_view_pRLE_eq)
  from assms(2) obtain s1 x1 where
    lx: "LEDStep_loop k pal prog (nat c) (pRLE x, x) = Inr (s1, x1)" and x': "x' = x1\<lparr>pRLE := s1\<rparr>"
    by (auto simp add: LEDStep_def bindE_Inr_iff)
  from LEDStep_loop_sim [OF assms(1), of k pal prog "nat c" "pRLE x"] lx
  obtain y1 where ly: "LEDStep_loop k pal prog (nat c) (pRLE x, y) = Inr (s1, y1)"
    and v: "same_view x1 y1"
    by (cases "LEDStep_loop k pal prog (nat c) (pRLE x, y)") (auto simp add: sim_def)
  from v have "same_view (x1\<lparr>pRLE := s1\<rparr>) (y1\<lparr>pRLE := s1\<rparr>)" by (rule same_view_pRLE_update)
  with ly show ?thesis by (simp add: LEDStep_def p x')
qed

lemma load_op_pRLE_update:
  "(load_op pal c st)\<lparr>pRLE := s\<rparr> = load_op pal c (st\<lparr>pRLE := s\<rparr>)"
  by (cases c) simp_all

lemma period_split:
  "ops \<noteq> [] \<Longrightarrow>
     period ops = unat (run_field (ops ! 0)) + (sum_list (map run_length (drop 1 ops)) + 1)"
  by (cases ops) (simp_all add: period_def run_length_def)

subsection \<open>Frames of assembled programs\<close>

lemma LEDShow_loop_total:
  assumes ne: "ops \<noteq> []" and ok: "list_all (op_ok k) ops"
    and palok: "list_all (pal_ok pal) ops"
  shows "at_boundary ops x \<Longrightarrow>
     \<exists>out. LEDShow_loop k pal (assemble ops) n x = Inr out \<and> length out = n"
proof (induction n arbitrary: x)
  case 0
  show ?case by simp
next
  case (Suc n)
  from LEDStep_iter_at_boundary [OF ne ok Suc.prems, of pal] palok
  obtain y where y: "LEDStep_iter k pal (assemble ops) x = Inr y" "at_boundary ops y"
    by blast
  from Suc.IH [OF y(2)] obtain out where
    "LEDShow_loop k pal (assemble ops) n y = Inr out" "length out = n" by blast
  then show ?case by (simp add: LEDShow_iter_eq y(1))
qed

lemma LEDPulse_cursor:
  "pRLE (LEDPulse st) = pRLE st" "pRLEStart (LEDPulse st) = pRLEStart st"
  by (simp_all add: LEDPulse_def Let_def)

lemma reachable_at_boundary:
  assumes ne: "ops \<noteq> []" and ok: "list_all (op_ok k) ops"
  shows "reachable k pal (assemble ops) st \<Longrightarrow> at_boundary ops (pRLE st, st)"
proof (induction rule: reachable.induct)
  case (init n st)
  then have "st = (load_op pal (ops ! 0) (memset0\<lparr>pRLEStart := 0, iLen := n\<rparr>))
      \<lparr>pRLE := offs ops 1\<rparr>"
    by (simp add: LEDInit_assemble [OF ne ok] split: if_splits)
  then show ?case
    using ne by (auto simp add: at_boundary_def memset0_def Suc_le_eq intro!: exI [of _ 1])
next
  case (step st c st')
  from step.hyps(2) obtain s1 st1 where
    l: "LEDStep_loop k pal (assemble ops) (nat c) (pRLE st, st) = Inr (s1, st1)"
    and st': "st' = st1\<lparr>pRLE := s1\<rparr>"
    by (auto simp add: LEDStep_def bindE_Inr_iff)
  from LEDStep_loop_at_boundary [OF ne ok step.IH, of pal "nat c"] l
  have "at_boundary ops (s1, st1)" by auto
  then show ?case by (simp add: st' at_boundary_def)
next
  case (pulse st)
  then show ?case by (simp add: at_boundary_def LEDPulse_cursor)
qed

lemma LEDShow_assembled_total:
  assumes ne: "ops \<noteq> []" and ok: "list_all (op_ok k) ops"
    and palok: "list_all (pal_ok pal) ops"
    and reach: "reachable k pal (assemble ops) st"
  shows "\<exists>out. LEDShow k pal (assemble ops) st = Inr (out, st) \<and> length out = nat (iLen st)"
proof -
  from ne ok reach have "at_boundary ops (pRLE st, st)" by (rule reachable_at_boundary)
  from LEDShow_loop_total [OF ne ok palok this, of "nat (iLen st)"]
  show ?thesis by (auto simp add: LEDShow_def)
qed

subsection \<open>The tests of LEDPulse\<close>

text \<open>
  \<^verbatim>\<open>LEDPulse\<close> either reverses, with every channel on the bound of the direction it
  came in, or stores the candidates.  When it does not reverse, the red and the green
  candidate lie between their bounds wherever the two bounds differ.  With red and
  green at rest, an ascending red channel reverses when its candidate leaves the range
  of its bounds; an ascending blue channel reverses when its candidate exceeds 1.
\<close>

lemma LEDPulse_reverses:
  assumes "bChangeDir st (cand_r st) (cand_g st) (cand_b st)"
  shows "LEDPulse st =
           (if iDir st = 0 then st\<lparr>r := er st, g := eg st, b := eb st, iDir := 1\<rparr>
            else st\<lparr>r := sr st, g := sg st, b := sb st, iDir := 0\<rparr>)"
  using assms by (simp add: LEDPulse_def cand_r_def cand_g_def cand_b_def Let_def)

lemma LEDPulse_moves:
  assumes "\<not> bChangeDir st (cand_r st) (cand_g st) (cand_b st)"
  shows "LEDPulse st =
           st\<lparr>r := word_of_int (cand_r st), g := word_of_int (cand_g st),
              b := word_of_int (cand_b st)\<rparr>"
  using assms by (simp add: LEDPulse_def cand_r_def cand_g_def cand_b_def Let_def)

lemma bChangeDir_iff:
  "bChangeDir st r1 g1 b1 \<longleftrightarrow>
     sr st < er st \<and> (r1 > uint (er st) \<or> r1 < uint (sr st))
     \<or> sr st > er st \<and> (r1 < uint (er st) \<or> r1 > uint (sr st))
     \<or> sg st < eg st \<and> (g1 > uint (eg st) \<or> g1 < uint (sg st))
     \<or> sg st > eg st \<and> (g1 < uint (eg st) \<or> g1 > uint (sg st))
     \<or> sb st < eb st \<and> b1 > (if eb st \<noteq> 0 \<or> b1 < uint (sb st) then 1 else 0)
     \<or> sb st > eb st \<and> b1 < (if eb st \<noteq> 0 \<or> b1 > uint (sb st) then 1 else 0)"
proof -
  have e: "(if P then True else Q) \<longleftrightarrow> P \<or> Q" for P Q by simp
  have f: "(P \<or> False) \<longleftrightarrow> P" for P by simp
  show ?thesis unfolding bChangeDir_def e f by (rule refl)
qed

lemma channel_in_bounds:
  fixes s e :: byte
  assumes "\<not> (s < e \<and> (c > uint e \<or> c < uint s))" "\<not> (s > e \<and> (c < uint e \<or> c > uint s))"
    "s \<noteq> e"
  shows "min (uint s) (uint e) \<le> c \<and> c \<le> max (uint s) (uint e)"
proof (cases "s < e")
  case True
  then have "uint s < uint e" by (simp add: word_less_def)
  with True assms(1) show ?thesis by auto
next
  case False
  with assms(3) have gt: "e < s" by auto
  then have "uint e < uint s" by (simp add: word_less_def)
  with gt assms(2) show ?thesis by auto
qed

lemma red_green_in_bounds:
  assumes "\<not> bChangeDir st r1 g1 b1"
  shows "sr st \<noteq> er st \<Longrightarrow> min (uint (sr st)) (uint (er st)) \<le> r1
           \<and> r1 \<le> max (uint (sr st)) (uint (er st))"
    and "sg st \<noteq> eg st \<Longrightarrow> min (uint (sg st)) (uint (eg st)) \<le> g1
           \<and> g1 \<le> max (uint (sg st)) (uint (eg st))"
proof -
  from assms have
    r: "\<not> (sr st < er st \<and> (r1 > uint (er st) \<or> r1 < uint (sr st)))"
       "\<not> (sr st > er st \<and> (r1 < uint (er st) \<or> r1 > uint (sr st)))" and
    g: "\<not> (sg st < eg st \<and> (g1 > uint (eg st) \<or> g1 < uint (sg st)))"
       "\<not> (sg st > eg st \<and> (g1 < uint (eg st) \<or> g1 > uint (sg st)))"
    unfolding bChangeDir_iff by blast+
  show "sr st \<noteq> er st \<Longrightarrow> min (uint (sr st)) (uint (er st)) \<le> r1
           \<and> r1 \<le> max (uint (sr st)) (uint (er st))"
    using r by (rule channel_in_bounds)
  show "sg st \<noteq> eg st \<Longrightarrow> min (uint (sg st)) (uint (eg st)) \<le> g1
           \<and> g1 \<le> max (uint (sg st)) (uint (eg st))"
    using g by (rule channel_in_bounds)
qed

lemma bChangeDir_red_ascending:
  assumes "sr st < er st" "sg st = eg st" "sb st = eb st"
  shows "bChangeDir st r1 g1 b1 \<longleftrightarrow> uint (er st) < r1 \<or> r1 < uint (sr st)"
  using assms by (auto simp add: bChangeDir_def)

lemma bChangeDir_blue_ascending:
  assumes "sr st = er st" "sg st = eg st" "sb st < eb st"
  shows "bChangeDir st r1 g1 b1 \<longleftrightarrow> 1 < b1"
proof -
  from assms(3) have "eb st \<noteq> 0" by (auto simp add: word_less_nat_alt)
  moreover from assms(3) have "\<not> eb st < sb st" by (simp add: not_less)
  ultimately show ?thesis using assms by (simp add: bChangeDir_def)
qed

section \<open>The claims\<close>

text \<open>
  Claim C1.  A step that decodes a \<^verbatim>\<open>MODE_GRADIENT\<close> operation (at the cursor, or at
  the start of the program when the cursor is on \<^verbatim>\<open>MODE_END\<close>) and \<open>n\<close> further
  steps, \<open>n\<close> at most the value of the length bits, leave in each channel the palette
  colour of the index byte plus \<open>n\<close> times the signed delta byte of that channel,
  modulo 256: the channels wrap and are not clamped.  This is the colour of pixel \<open>n\<close>
  of the run, counted from the pixel on which the operation was decoded; in both
  sketches.
\<close>

theorem gradient_run_colour:
  assumes "decodes prog st"
    and "decoded_op prog st AND MODE_MASK = MODE_GRADIENT"
    and "param_cursor prog st + 3 < length prog"
    and "3 * unat (prog ! param_cursor prog st) + 2 < length pal"
    and "n \<le> unat (decoded_op prog st AND LENGTH_MASK)"
  shows "\<exists>st'. LEDStep k pal prog st (1 + int n) = Inr st'
           \<and> uint (r st') = (uint (pal ! (3 * unat (prog ! param_cursor prog st)))
                               + int n * sint (prog ! (param_cursor prog st + 1))) mod 256
           \<and> uint (g st') = (uint (pal ! (3 * unat (prog ! param_cursor prog st) + 1))
                               + int n * sint (prog ! (param_cursor prog st + 2))) mod 256
           \<and> uint (b st') = (uint (pal ! (3 * unat (prog ! param_cursor prog st) + 2))
                               + int n * sint (prog ! (param_cursor prog st + 3))) mod 256"
proof -
  let ?c = "param_cursor prog st"
  let ?st1 = "st\<lparr>iCount := decoded_op prog st AND LENGTH_MASK, lastOP := MODE_GRADIENT,
              r := pal ! (3 * unat (prog ! ?c)), g := pal ! (3 * unat (prog ! ?c) + 1),
              b := pal ! (3 * unat (prog ! ?c) + 2),
              dr := prog ! (?c + 1), dg := prog ! (?c + 2), db := prog ! (?c + 3),
              pRLE := ?c + 4\<rparr>"
  have one: "LEDStep k pal prog st (int 1) = Inr ?st1"
    using LEDStep_decodes [OF assms(1)] switch_op_gradient [OF assms(2,3,4)] by simp
  have rest: "LEDStep k pal prog ?st1 (int n) = Inr (run_on n ?st1)"
    using assms(5) by (intro LEDStep_cont) simp
  have "LEDStep k pal prog st (int (1 + n)) = Inr (run_on n ?st1)"
    unfolding LEDStep_add one using rest by simp
  then have "LEDStep k pal prog st (1 + int n) = Inr (run_on n ?st1)" by simp
  then show ?thesis
    by (simp add: run_on_def uint_add_times)
qed

theorem gradient_run_colour_witness:
  "decodes prog_a st_b
   \<and> decoded_op prog_a st_b AND MODE_MASK = MODE_GRADIENT
   \<and> (1::nat) \<le> unat (decoded_op prog_a st_b AND LENGTH_MASK)
   \<and> (\<exists>st'. LEDStep GapSketch pPalette_gap prog_a st_b (1 + int 1) = Inr st'
          \<and> uint (r st') = 8 \<and> uint (g st') = 24 \<and> uint (b st') = 0)"
proof -
  have h1: "decodes prog_a st_b"
    by (simp add: decodes_def prog_a_def st_b_def st_a_def)
  have h2: "decoded_op prog_a st_b AND MODE_MASK = MODE_GRADIENT"
    by (simp add: decoded_op_def prog_a_def st_b_def st_a_def)
  have c: "param_cursor prog_a st_b = 3"
    by (simp add: param_cursor_def prog_a_def st_b_def st_a_def)
  have h3: "param_cursor prog_a st_b + 3 < length prog_a"
    unfolding c by (simp add: prog_a_def)
  have h4: "3 * unat (prog_a ! param_cursor prog_a st_b) + 2 < length pPalette_gap"
    unfolding c by (simp add: prog_a_def pPalette_gap_def)
  have h5: "(1::nat) \<le> unat (decoded_op prog_a st_b AND LENGTH_MASK)"
    by (simp add: decoded_op_def prog_a_def st_b_def st_a_def)
  from gradient_run_colour [OF h1 h2 h3 h4 h5, of GapSketch] h1 h2 h5 show ?thesis
    unfolding c by (simp add: prog_a_def pPalette_gap_def)
qed

text \<open>
  Claim C2.  The pulse from (0,0,0) to (0,0,10) in steps of (0,0,1): the first
  \<^verbatim>\<open>LEDPulse\<close> stores blue 1.  The second has the candidate 2, which has not passed the
  bound 10, and yet the direction flips and blue is set to 10; the third flips again
  and blue is back at 0.  The blue tests compare the candidate with the truth value
  of the misplaced parenthesis, so an ascending blue channel reverses as soon as its
  candidate exceeds 1.  The same pulse on the red channel moves 0, 1, 2 and does not
  reverse, as the rule for every channel should be.
\<close>

theorem LEDPulse_blue_reverses_early:
  "LEDInit PulseSketch pPalette prog_blue 60 = Inr st_blue
   \<and> LEDPulse st_blue = st_blue\<lparr>b := 1\<rparr>
   \<and> LEDPulse (st_blue\<lparr>b := 1\<rparr>) = st_blue\<lparr>b := 10, iDir := 1\<rparr>
   \<and> LEDPulse (st_blue\<lparr>b := 10, iDir := 1\<rparr>) = st_blue
   \<and> LEDInit PulseSketch pPalette prog_red 60 = Inr st_red
   \<and> LEDPulse st_red = st_red\<lparr>r := 1\<rparr>
   \<and> LEDPulse (st_red\<lparr>r := 1\<rparr>) = st_red\<lparr>r := 2\<rparr>"
  by code_simp

text \<open>
  Claim C3 says that every byte with mode bits 11 sends the decoder back to the start.
  The byte \<^verbatim>\<open>0xC5\<close> has mode bits 11, and the step that reads it keeps the cursor
  going (3, not back at the start), stores the mode \<^verbatim>\<open>0xC0\<close> and the count 5, and so
  shows six pixels of its own in the colour it found; the step from the start of the
  program gives another state.
\<close>

theorem END_mode_bits_counterexample:
  "LEDInit PulseSketch pPalette prog_c5 60 = Inr st_end
   \<and> iCount st_end = 0 \<and> pRLE st_end < length prog_c5
   \<and> prog_c5 ! pRLE st_end AND MODE_MASK = MODE_END
   \<and> LEDStep PulseSketch pPalette prog_c5 st_end 1
        = Inr (st_end\<lparr>iCount := 5, lastOP := MODE_END, pRLE := 3\<rparr>)
   \<and> LEDStep PulseSketch pPalette prog_c5 (st_end\<lparr>pRLE := pRLEStart st_end\<rparr>) 1
        = Inr st_end"
  by code_simp

text \<open>
  Claim C3, amended.  A step with no remaining count reads a byte with mode bits 11, in
  either sketch.  If the byte is \<^verbatim>\<open>MODE_END\<close>, \<^verbatim>\<open>0xC0\<close>, itself (length bits 0), the step
  is the step taken with the cursor on the start of the program: the first operation
  there is decoded in the same step, so the sentinel shows no pixel of its own.  On
  return the cursor is past the start, and mode and count are those of the first byte
  of the program.  If the byte is any other one (\<^verbatim>\<open>0xC1\<close> to \<^verbatim>\<open>0xFF\<close>, length bits not
  0), there is no restart: the step stores the mode \<^verbatim>\<open>0xC0\<close> and the length bits as the
  count, reads no parameter byte, moves the cursor one byte on and leaves the colour
  and everything else as it was; the steps after it, as many as the length bits, only
  count down, so the byte is a run of its own in the colour it found.
\<close>

theorem END_byte_restarts:
  assumes "iCount st = 0" "pRLE st < length prog"
    and "prog ! pRLE st AND MODE_MASK = MODE_END"
  shows "(prog ! pRLE st = MODE_END \<longrightarrow>
            LEDStep k pal prog st 1 = LEDStep k pal prog (st\<lparr>pRLE := pRLEStart st\<rparr>) 1
            \<and> (\<forall>st'. LEDStep k pal prog st 1 = Inr st' \<longrightarrow>
                  pRLEStart st' = pRLEStart st \<and> pRLEStart st < pRLE st'
                  \<and> lastOP st' = prog ! pRLEStart st AND MODE_MASK
                  \<and> iCount st' = prog ! pRLEStart st AND LENGTH_MASK))
       \<and> (prog ! pRLE st \<noteq> MODE_END \<longrightarrow>
            prog ! pRLE st AND LENGTH_MASK \<noteq> 0
            \<and> (\<forall>n \<le> unat (prog ! pRLE st AND LENGTH_MASK).
                  LEDStep k pal prog st (1 + int n) =
                    Inr (st\<lparr>iCount := (prog ! pRLE st AND LENGTH_MASK) - of_nat n,
                            lastOP := MODE_END, pRLE := pRLE st + 1\<rparr>)))"
proof (rule conjI; rule impI)
  assume e: "prog ! pRLE st = MODE_END"
  let ?W = "\<lambda>(s', st'). Inr (st'\<lparr>pRLE := s'\<rparr>) :: error + LEDSTRING"
  let ?D = "bindE (read_rle prog (pRLEStart st))
              (\<lambda>op1. switch_op k pal prog op1 (pRLEStart st + 1) st)"
  have rd: "read_rle prog (pRLE st) = Inr MODE_END"
    using assms(2) e by (simp add: read_rle_def)
  have lhs: "LEDStep k pal prog st 1 = bindE ?D ?W"
    by (simp add: LEDStep_one LEDStep_iter_decode [OF assms(1)] rd)
  have iter: "LEDStep_iter k pal prog (pRLEStart st, st) = ?D"
    by (cases "read_rle prog (pRLEStart st)")
       (simp_all add: LEDStep_iter_decode [OF assms(1)])
  have rhs: "LEDStep k pal prog (st\<lparr>pRLE := pRLEStart st\<rparr>) 1 = bindE ?D ?W"
    by (cases ?D) (auto simp add: LEDStep_one LEDStep_iter_pRLE iter)
  have fields: "pRLEStart st' = pRLEStart st \<and> pRLEStart st < pRLE st'
             \<and> lastOP st' = prog ! pRLEStart st AND MODE_MASK
             \<and> iCount st' = prog ! pRLEStart st AND LENGTH_MASK"
    if "LEDStep k pal prog st 1 = Inr st'" for st'
  proof -
    from that lhs obtain op1 s2 st2 where
      "read_rle prog (pRLEStart st) = Inr op1"
      "switch_op k pal prog op1 (pRLEStart st + 1) st = Inr (s2, st2)"
      "st' = st2\<lparr>pRLE := s2\<rparr>"
      by (auto simp add: bindE_Inr_iff)
    moreover from this(1) have "op1 = prog ! pRLEStart st"
      by (simp add: read_rle_def split: if_splits)
    ultimately show ?thesis
      using switch_op_fields [of k pal prog op1 "pRLEStart st + 1" st s2 st2] by simp
  qed
  have "LEDStep k pal prog st 1 = LEDStep k pal prog (st\<lparr>pRLE := pRLEStart st\<rparr>) 1"
    by (simp only: lhs rhs)
  moreover have "\<forall>st'. LEDStep k pal prog st 1 = Inr st' \<longrightarrow>
             pRLEStart st' = pRLEStart st \<and> pRLEStart st < pRLE st'
             \<and> lastOP st' = prog ! pRLEStart st AND MODE_MASK
             \<and> iCount st' = prog ! pRLEStart st AND LENGTH_MASK"
    using fields by blast
  ultimately show
    "LEDStep k pal prog st 1 = LEDStep k pal prog (st\<lparr>pRLE := pRLEStart st\<rparr>) 1
     \<and> (\<forall>st'. LEDStep k pal prog st 1 = Inr st' \<longrightarrow>
             pRLEStart st' = pRLEStart st \<and> pRLEStart st < pRLE st'
             \<and> lastOP st' = prog ! pRLEStart st AND MODE_MASK
             \<and> iCount st' = prog ! pRLEStart st AND LENGTH_MASK)"
    by (rule conjI)
next
  assume ne: "prog ! pRLE st \<noteq> MODE_END"
  let ?st1 = "st\<lparr>iCount := prog ! pRLE st AND LENGTH_MASK, lastOP := MODE_END,
                 pRLE := pRLE st + 1\<rparr>"
  have d: "decodes prog st" using assms(1,2) ne by (simp add: decodes_def)
  have o: "decoded_op prog st = prog ! pRLE st" "param_cursor prog st = pRLE st + 1"
    using ne by (simp_all add: decoded_op_def param_cursor_def)
  have one: "LEDStep k pal prog st (int 1) = Inr ?st1"
    using LEDStep_decodes [OF d, of k pal] switch_op_end_bits [OF assms(3), of k pal prog]
    by (simp add: o)
  have run: "LEDStep k pal prog st (1 + int n) =
      Inr (st\<lparr>iCount := (prog ! pRLE st AND LENGTH_MASK) - of_nat n,
              lastOP := MODE_END, pRLE := pRLE st + 1\<rparr>)"
    if n: "n \<le> unat (prog ! pRLE st AND LENGTH_MASK)" for n
  proof -
    have rest: "LEDStep k pal prog ?st1 (int n) = Inr (run_on n ?st1)"
      using n by (intro LEDStep_cont) simp
    have "LEDStep k pal prog st (int (1 + n)) = Inr (run_on n ?st1)"
      unfolding LEDStep_add one using rest by simp
    then have "LEDStep k pal prog st (1 + int n) = Inr (run_on n ?st1)" by simp
    then show ?thesis by (simp add: run_on_def)
  qed
  have "prog ! pRLE st AND LENGTH_MASK \<noteq> 0"
    using assms(3) ne by (rule end_bits_length)
  moreover have "\<forall>n \<le> unat (prog ! pRLE st AND LENGTH_MASK).
      LEDStep k pal prog st (1 + int n) =
        Inr (st\<lparr>iCount := (prog ! pRLE st AND LENGTH_MASK) - of_nat n,
                lastOP := MODE_END, pRLE := pRLE st + 1\<rparr>)"
    using run by blast
  ultimately show "prog ! pRLE st AND LENGTH_MASK \<noteq> 0
     \<and> (\<forall>n \<le> unat (prog ! pRLE st AND LENGTH_MASK).
           LEDStep k pal prog st (1 + int n) =
             Inr (st\<lparr>iCount := (prog ! pRLE st AND LENGTH_MASK) - of_nat n,
                     lastOP := MODE_END, pRLE := pRLE st + 1\<rparr>))"
    by (rule conjI)
qed

theorem END_byte_restarts_witness:
  "iCount st_end = 0 \<and> pRLE st_end < length pSimple1
   \<and> pSimple1 ! pRLE st_end AND MODE_MASK = MODE_END \<and> pSimple1 ! pRLE st_end = MODE_END
   \<and> LEDStep PulseSketch pPalette pSimple1 st_end 1 = Inr (st_end\<lparr>iCount := 0x3B\<rparr>)
   \<and> LEDStep PulseSketch pPalette pSimple1 (st_end\<lparr>pRLE := pRLEStart st_end\<rparr>) 1
        = Inr (st_end\<lparr>iCount := 0x3B\<rparr>)
   \<and> pRLE st_end < length prog_c5
   \<and> prog_c5 ! pRLE st_end AND MODE_MASK = MODE_END \<and> prog_c5 ! pRLE st_end \<noteq> MODE_END
   \<and> (5::nat) \<le> unat (prog_c5 ! pRLE st_end AND LENGTH_MASK)
   \<and> LEDStep GapSketch pPalette_gap prog_c5 st_end (1 + int 5)
        = Inr (st_end\<lparr>iCount := 0, lastOP := MODE_END, pRLE := 3\<rparr>)"
proof -
  have h1: "iCount st_end = 0" by (simp add: st_end_def)
  have h2: "pRLE st_end < length pSimple1" by (simp add: st_end_def pSimple1_def)
  have h3: "pSimple1 ! pRLE st_end AND MODE_MASK = MODE_END"
    by (simp add: st_end_def pSimple1_def)
  have h4: "pSimple1 ! pRLE st_end = MODE_END" by (simp add: st_end_def pSimple1_def)
  have ev: "LEDStep PulseSketch pPalette pSimple1 st_end 1 = Inr (st_end\<lparr>iCount := 0x3B\<rparr>)"
    by code_simp
  have g2: "pRLE st_end < length prog_c5" by (simp add: st_end_def prog_c5_def)
  have g3: "prog_c5 ! pRLE st_end AND MODE_MASK = MODE_END"
    by (simp add: st_end_def prog_c5_def)
  have g4: "prog_c5 ! pRLE st_end \<noteq> MODE_END" by (simp add: st_end_def prog_c5_def)
  have v: "prog_c5 ! pRLE st_end AND LENGTH_MASK = 5" by (simp add: st_end_def prog_c5_def)
  have g5: "(5::nat) \<le> unat (prog_c5 ! pRLE st_end AND LENGTH_MASK)"
    unfolding v by simp
  have c: "pRLE st_end + 1 = 3" by (simp add: st_end_def)
  from END_byte_restarts [OF h1 h2 h3, of PulseSketch pPalette] h4 ev
  have p1: "LEDStep PulseSketch pPalette pSimple1 (st_end\<lparr>pRLE := pRLEStart st_end\<rparr>) 1
        = Inr (st_end\<lparr>iCount := 0x3B\<rparr>)"
    by simp
  from END_byte_restarts [OF h1 g2 g3, of GapSketch pPalette_gap] g4 g5
  have "LEDStep GapSketch pPalette_gap prog_c5 st_end (1 + int 5)
        = Inr (st_end\<lparr>iCount := (prog_c5 ! pRLE st_end AND LENGTH_MASK) - of_nat 5,
                       lastOP := MODE_END, pRLE := pRLE st_end + 1\<rparr>)"
    by blast
  then have p2: "LEDStep GapSketch pPalette_gap prog_c5 st_end (1 + int 5)
        = Inr (st_end\<lparr>iCount := 0, lastOP := MODE_END, pRLE := 3\<rparr>)"
    unfolding v c by simp
  from h1 h2 h3 h4 ev p1 g2 g3 g4 g5 p2 show ?thesis by (intro conjI)
qed

text \<open>
  Claim C4 says that the state after as many steps as the runs have pixels is the state
  after initialization.  The program of a simple run and a gradient run, two pixels
  each, has period 4; after 4 steps the simple run is on again, but \<open>dr\<close> and \<open>dg\<close>
  still hold the deltas of the gradient, which \<^verbatim>\<open>LEDInit\<close> had left 0.
\<close>

theorem period_state_counterexample:
  "assemble ops_a = prog_a \<and> period ops_a = 4
   \<and> LEDInit GapSketch pPalette_gap prog_a 5 = Inr st_a
   \<and> LEDStep GapSketch pPalette_gap prog_a st_a 4 = Inr (st_a\<lparr>dr := 8, dg := 0xF8\<rparr>)
   \<and> st_a\<lparr>dr := 8, dg := 0xF8\<rparr> \<noteq> st_a"
  by code_simp

text \<open>
  Claim C4, amended.  For a program assembled from a non-empty list of simple and
  gradient operations (and gap operations in the sketch that has them) with
  \<^verbatim>\<open>MODE_END\<close> as its last byte, and a palette that holds every entry named:
  initialization succeeds, every number of steps succeeds, and the state after
  \<open>n + period\<close> steps agrees with the state after \<open>n\<close> steps in cursor, count, mode,
  colour and every other field except the deltas, which agree too while a gradient
  runs.  So the colours sent are periodic with the number of pixels of all runs as
  period.  When the first operation is a gradient, the states are equal in every
  field.
\<close>

theorem period_same_view:
  assumes ne: "ops \<noteq> []" and ok: "list_all (op_ok k) ops"
    and palok: "list_all (pal_ok pal) ops"
  shows "\<exists>st0. LEDInit k pal (assemble ops) N = Inr st0
       \<and> (\<forall>n. \<exists>st1 st2.
              LEDStep k pal (assemble ops) st0 (int n) = Inr st1
              \<and> LEDStep k pal (assemble ops) st0 (int (n + period ops)) = Inr st2
              \<and> same_view st1 st2 \<and> CurrentColor st1 = CurrentColor st2)
       \<and> (lastOP st0 = MODE_GRADIENT \<longrightarrow>
            (\<forall>n. LEDStep k pal (assemble ops) st0 (int (n + period ops))
                   = LEDStep k pal (assemble ops) st0 (int n)))"
proof -
  let ?P = "assemble ops"
  let ?c = "ops ! 0"
  let ?zz = "memset0\<lparr>pRLEStart := 0, iLen := N, pRLE := offs ops 1\<rparr>"
  let ?st0 = "load_op pal ?c ?zz"
  let ?f = "unat (run_field ?c)"
  from ne palok have p0: "pal_ok pal ?c" by (simp add: list_all_length)
  have init: "LEDInit k pal ?P N = Inr ?st0"
    using p0 by (simp add: LEDInit_assemble [OF ne ok] load_op_pRLE_update)
  have cur: "pRLE ?st0 = offs ops 1" by simp
  have run: "LEDStep_loop k pal ?P ?f (offs ops 1, ?st0) = Inr (offs ops 1, run_on ?f ?st0)"
    by (rule LEDStep_loop_cont) simp
  have "1 \<le> length ops" using ne by (simp add: Suc_le_eq)
  moreover have "iCount (run_on ?f ?st0) = 0" by simp
  moreover have "pRLEStart (run_on ?f ?st0) = 0" by (simp add: memset0_def)
  ultimately obtain st' where
    cyc: "LEDStep_loop k pal ?P (sum_list (map run_length (drop 1 ops)) + 1)
            (offs ops 1, run_on ?f ?st0) = Inr (offs ops 1, load_op pal ?c st')"
    and fr: "frame_eq (run_on ?f ?st0) st'"
    using LEDStep_loop_cycle [OF ne ok palok, of 1 "run_on ?f ?st0"] by blast
  let ?stP = "load_op pal ?c st'"
  have "frame_eq ?zz st'"
    using frame_eq_load_op [of ?zz pal ?c] frame_eq_run_on [of ?st0 ?f] fr
    by (blast intro: frame_eq_trans)
  then have view: "same_view ?st0 ?stP" and "pRLE ?zz = pRLE st'"
    by (rule same_view_load_op, rule frame_eq_pRLE)
  then have curP: "pRLE ?stP = offs ops 1" by simp
  have "LEDStep_loop k pal ?P (period ops) (offs ops 1, ?st0) =
      bindE (LEDStep_loop k pal ?P ?f (offs ops 1, ?st0))
        (LEDStep_loop k pal ?P (sum_list (map run_length (drop 1 ops)) + 1))"
    unfolding period_split [OF ne] by (rule LEDStep_loop_add)
  also have "\<dots> = Inr (offs ops 1, ?stP)"
    by (simp only: run bindE_simps cyc)
  finally have loopP: "LEDStep_loop k pal ?P (period ops) (offs ops 1, ?st0) =
      Inr (offs ops 1, ?stP)" .
  have "?stP\<lparr>pRLE := offs ops 1\<rparr> = ?stP"
  proof -
    have "?stP\<lparr>pRLE := pRLE ?stP\<rparr> = ?stP" by simp
    then show ?thesis by (simp only: curP)
  qed
  with loopP have stepP: "LEDStep k pal ?P ?st0 (int (period ops)) = Inr ?stP"
    unfolding LEDStep_def cur by simp
  have shift: "LEDStep k pal ?P ?st0 (int (n + period ops)) = LEDStep k pal ?P ?stP (int n)"
    for n
  proof -
    have "LEDStep k pal ?P ?st0 (int (period ops + n)) =
        bindE (LEDStep k pal ?P ?st0 (int (period ops))) (\<lambda>st'. LEDStep k pal ?P st' (int n))"
      by (rule LEDStep_add)
    then show ?thesis by (simp only: stepP bindE_simps add.commute [of n])
  qed
  have total: "\<exists>st1. LEDStep k pal ?P ?st0 (int n) = Inr st1" for n
  proof -
    have "at_boundary ops (pRLE ?st0, ?st0)"
      using ne unfolding cur
      by (auto simp add: at_boundary_def memset0_def Suc_le_eq intro!: exI [of _ 1])
    from LEDStep_loop_at_boundary [OF ne ok this, of pal n] palok
    show ?thesis by (auto simp add: LEDStep_def)
  qed
  have per: "\<exists>st1 st2. LEDStep k pal ?P ?st0 (int n) = Inr st1
      \<and> LEDStep k pal ?P ?st0 (int (n + period ops)) = Inr st2 \<and> same_view st1 st2
      \<and> CurrentColor st1 = CurrentColor st2" for n
  proof -
    from total obtain st1 where s1: "LEDStep k pal ?P ?st0 (int n) = Inr st1" by blast
    from LEDStep_sim [OF view s1] obtain st2 where
      s2: "LEDStep k pal ?P ?stP (int n) = Inr st2" and v: "same_view st1 st2" by blast
    from v have "CurrentColor st1 = CurrentColor st2" by (rule same_view_fields(1))
    with s1 s2 v show ?thesis by (auto simp only: shift)
  qed
  have full: "LEDStep k pal ?P ?st0 (int (n + period ops)) = LEDStep k pal ?P ?st0 (int n)"
    if "lastOP ?st0 = MODE_GRADIENT" for n
  proof -
    from view that have "?stP = ?st0" by (rule same_view_elim(2))
    then show ?thesis by (simp only: shift)
  qed
  from init per full show ?thesis by blast
qed

theorem period_same_view_witness:
  "ops_a \<noteq> [] \<and> list_all (op_ok GapSketch) ops_a \<and> list_all (pal_ok pPalette_gap) ops_a
   \<and> (\<exists>st0. LEDInit GapSketch pPalette_gap (assemble ops_a) 5 = Inr st0
       \<and> (\<forall>n. \<exists>st1 st2.
              LEDStep GapSketch pPalette_gap (assemble ops_a) st0 (int n) = Inr st1
              \<and> LEDStep GapSketch pPalette_gap (assemble ops_a) st0 (int (n + period ops_a))
                   = Inr st2
              \<and> same_view st1 st2 \<and> CurrentColor st1 = CurrentColor st2))"
proof -
  have h1: "ops_a \<noteq> []" by (simp add: ops_a_def)
  have h2: "list_all (op_ok GapSketch) ops_a" by (simp add: ops_a_def)
  have h3: "list_all (pal_ok pPalette_gap) ops_a" by (simp add: ops_a_def pPalette_gap_def)
  from period_same_view [OF h1 h2 h3, of 5] h1 h2 h3 show ?thesis by blast
qed

text \<open>
  Claim C5.  \<^verbatim>\<open>LEDShow\<close> is the frame of the specification run from the state it is
  given: one colour read and then one \<^verbatim>\<open>LEDStep\<close> of a single step for each of the
  \<open>iLen\<close> pixels, failing exactly when one of these steps reads outside an array.
  A frame that is rendered has \<open>iLen\<close> colours (none when \<open>iLen\<close> is not positive), and
  its \<open>i\<close>-th colour is the current colour of the state reached by \<open>i\<close> single steps.
  For an assembled program and a palette that holds every entry named, every frame
  from a reachable state is rendered: the program loops as needed.
\<close>

theorem LEDShow_refines_RenderFrame:
  "LEDShow k pal prog st =
     bindE (RenderFrame k pal prog (nat (iLen st)) st) (\<lambda>out. Inr (out, st))
   \<and> (\<forall>out st'. LEDShow k pal prog st = Inr (out, st') \<longrightarrow>
         length out = nat (iLen st)
         \<and> (\<forall>i < nat (iLen st). \<exists>sti.
               LEDStep k pal prog st (int i) = Inr sti \<and> out ! i = CurrentColor sti))
   \<and> (\<forall>ops. ops \<noteq> [] \<and> list_all (op_ok k) ops \<and> list_all (pal_ok pal) ops
           \<and> prog = assemble ops \<and> reachable k pal prog st \<longrightarrow>
         (\<exists>out. LEDShow k pal prog st = Inr (out, st) \<and> length out = nat (iLen st)))"
proof -
  have eq: "LEDShow k pal prog st =
     bindE (RenderFrame k pal prog (nat (iLen st)) st) (\<lambda>out. Inr (out, st))"
    by (simp add: LEDShow_def LEDShow_loop_RenderFrame)
  have rendered: "\<forall>out st'. LEDShow k pal prog st = Inr (out, st') \<longrightarrow>
         length out = nat (iLen st)
         \<and> (\<forall>i < nat (iLen st). \<exists>sti.
               LEDStep k pal prog st (int i) = Inr sti \<and> out ! i = CurrentColor sti)"
    using RenderFrame_length RenderFrame_nth
    by (auto simp add: eq bindE_Inr_iff)
  have total: "\<forall>ops. ops \<noteq> [] \<and> list_all (op_ok k) ops \<and> list_all (pal_ok pal) ops
           \<and> prog = assemble ops \<and> reachable k pal prog st \<longrightarrow>
         (\<exists>out. LEDShow k pal prog st = Inr (out, st) \<and> length out = nat (iLen st))"
    using LEDShow_assembled_total by blast
  from eq rendered total show ?thesis by (intro conjI)
qed

theorem LEDShow_refines_RenderFrame_witness:
  "LEDShow GapSketch pPalette_gap prog_a st_a = Inr (frame_a, st_a)
   \<and> length frame_a = 5
   \<and> (\<exists>sti. LEDStep GapSketch pPalette_gap prog_a st_a 3 = Inr sti
          \<and> frame_a ! 3 = CurrentColor sti)"
proof -
  have len: "nat (iLen st_a) = 5" by (simp add: st_a_def)
  from LEDShow_refines_RenderFrame [of GapSketch pPalette_gap prog_a st_a] show_a
  have A: "length frame_a = nat (iLen st_a)"
    and B: "\<forall>i < nat (iLen st_a). \<exists>sti.
            LEDStep GapSketch pPalette_gap prog_a st_a (int i) = Inr sti
            \<and> frame_a ! i = CurrentColor sti"
    by blast+
  from B have "3 < nat (iLen st_a) \<longrightarrow> (\<exists>sti.
            LEDStep GapSketch pPalette_gap prog_a st_a (int 3) = Inr sti
            \<and> frame_a ! 3 = CurrentColor sti)"
    by (rule spec)
  with A show_a show ?thesis by (simp add: len)
qed

text \<open>
  Claim C6.  \<^verbatim>\<open>LEDStep\<close> has no \<^verbatim>\<open>MODE_PULSE\<close> case.  In the program of a simple run
  followed by a pulse operation, the step that decodes the pulse operation stores
  mode and count and nothing else: the colour stays that of the simple run, start
  bound, end bound and deltas stay 0, and the cursor moves by one byte, onto the first
  parameter byte, which the next decoding reads as an operation.  \<^verbatim>\<open>LEDInit\<close> on the
  same pulse operation loads all nine bytes and leaves the cursor past them.
\<close>

theorem LEDStep_skips_pulse_case:
  "LEDInit PulseSketch pPalette prog_p 60 = Inr st_end
   \<and> LEDStep PulseSketch pPalette prog_p st_end 1
        = Inr (st_end\<lparr>lastOP := MODE_PULSE, iCount := 1, pRLE := 3\<rparr>)
   \<and> LEDInit PulseSketch pPalette (drop 2 prog_p) 60
        = Inr \<lparr>iLen = 60, lastOP = MODE_PULSE, pRLEStart = 0, pRLE = 10, iCount = 1, iDir = 0,
              r = 5, g = 6, b = 7, dr = 1, dg = 1, db = 1,
              sr = 5, sg = 6, sb = 7, er = 9, eg = 9, eb = 9\<rparr>"
  by code_simp

text \<open>
  Claim C7 says that a step that decodes an operation of mode 00 sets the colour to 0.
  In \<^verbatim>\<open>neopixel.ino\<close> mode 00 is \<^verbatim>\<open>MODE_PULSE\<close>, and the \<^verbatim>\<open>case MODE_GAP\<close> of \<^verbatim>\<open>LEDStep\<close> is
  commented out.  After \<^verbatim>\<open>MODE_SIMPLE | 0, 1\<close> the colour is (1,0,0); the step that
  decodes the byte of mode 00 and length bits 2 stores mode and count and keeps the
  colour, and so do the two steps that finish the run: its three pixels are red.
\<close>

theorem gap_opcode_counterexample:
  "LEDInit PulseSketch pPalette prog_gap 60 = Inr st_end
   \<and> iCount st_end = 0 \<and> pRLE st_end < length prog_gap
   \<and> prog_gap ! pRLE st_end AND MODE_MASK = MODE_GAP
   \<and> CurrentColor st_end = (1, 0, 0)
   \<and> LEDStep PulseSketch pPalette prog_gap st_end 1
        = Inr (st_end\<lparr>lastOP := MODE_GAP, iCount := 2, pRLE := 3\<rparr>)
   \<and> LEDStep PulseSketch pPalette prog_gap st_end 3
        = Inr (st_end\<lparr>lastOP := MODE_GAP, iCount := 0, pRLE := 3\<rparr>)
   \<and> CurrentColor (st_end\<lparr>lastOP := MODE_GAP, iCount := 0, pRLE := 3\<rparr>) = (1, 0, 0)"
  by code_simp

text \<open>
  Claim C7, amended.  In the sketch that defines \<^verbatim>\<open>MODE_GAP\<close>, a step that decodes an
  operation of mode 00 and \<open>n\<close> further steps, \<open>n\<close> at most the value of the length
  bits, leave the current colour (0,0,0): every pixel of the run is black.
\<close>

theorem gap_run_black:
  assumes "decodes prog st"
    and "decoded_op prog st AND MODE_MASK = MODE_GAP"
    and "n \<le> unat (decoded_op prog st AND LENGTH_MASK)"
  shows "\<exists>st'. LEDStep GapSketch pal prog st (1 + int n) = Inr st'
           \<and> CurrentColor st' = (0, 0, 0)
           \<and> iCount st' = (decoded_op prog st AND LENGTH_MASK) - of_nat n"
proof -
  let ?st1 = "st\<lparr>iCount := decoded_op prog st AND LENGTH_MASK, lastOP := MODE_GAP,
                 r := 0, g := 0, b := 0, pRLE := param_cursor prog st\<rparr>"
  have one: "LEDStep GapSketch pal prog st (int 1) = Inr ?st1"
    using LEDStep_decodes [OF assms(1)] switch_op_gap [OF assms(2)] by simp
  have rest: "LEDStep GapSketch pal prog ?st1 (int n) = Inr (run_on n ?st1)"
    using assms(3) by (intro LEDStep_cont) simp
  have "LEDStep GapSketch pal prog st (int (1 + n)) = Inr (run_on n ?st1)"
    unfolding LEDStep_add one using rest by simp
  then have "LEDStep GapSketch pal prog st (1 + int n) = Inr (run_on n ?st1)" by simp
  then show ?thesis
    by (simp add: run_on_def CurrentColor_def)
qed

theorem gap_run_black_witness:
  "decodes prog_gap st_tail
   \<and> decoded_op prog_gap st_tail AND MODE_MASK = MODE_GAP
   \<and> (2::nat) \<le> unat (decoded_op prog_gap st_tail AND LENGTH_MASK)
   \<and> (\<exists>st'. LEDStep GapSketch pPalette_gap prog_gap st_tail (1 + int 2) = Inr st'
          \<and> CurrentColor st' = (0, 0, 0) \<and> iCount st' = 0)"
proof -
  have h1: "decodes prog_gap st_tail"
    by (simp add: decodes_def prog_gap_def st_tail_def)
  have h2: "decoded_op prog_gap st_tail AND MODE_MASK = MODE_GAP"
    by (simp add: decoded_op_def prog_gap_def st_tail_def)
  have h3: "(2::nat) \<le> unat (decoded_op prog_gap st_tail AND LENGTH_MASK)"
    by (simp add: decoded_op_def prog_gap_def st_tail_def)
  have v: "decoded_op prog_gap st_tail AND LENGTH_MASK = 2"
    by (simp add: decoded_op_def prog_gap_def st_tail_def)
  from gap_run_black [OF h1 h2 h3, of pPalette_gap] h1 h2 h3 show ?thesis
    unfolding v by simp
qed

text \<open>
  Claim C8 says that a well-formed program is never read past its end.  The program
  \<^verbatim>\<open>MODE_SIMPLE | 0, 1, 0xC5\<close> is a complete operation closed by a byte of mode 11.
  \<^verbatim>\<open>LEDStep\<close> compares the whole byte with \<^verbatim>\<open>MODE_END\<close>, takes \<^verbatim>\<open>0xC5\<close> for a run of
  six pixels, and on the seventh step reads the byte after the end of the program.
  The program that is \<^verbatim>\<open>MODE_END\<close> alone is an empty sequence of operations closed by
  the sentinel: \<^verbatim>\<open>LEDInit\<close> decodes the sentinel as an operation, and the first step
  reads the byte after it.
\<close>

theorem well_formed_overrun_counterexample:
  "spec_well_formed GapSketch prog_tail
   \<and> LEDInit GapSketch pPalette_gap prog_tail 60 = Inr st_tail
   \<and> LEDStep GapSketch pPalette_gap prog_tail st_tail 6
        = Inr (st_tail\<lparr>lastOP := MODE_END, pRLE := 3\<rparr>)
   \<and> LEDStep GapSketch pPalette_gap prog_tail st_tail 7 = Inl ProgramOverrun
   \<and> spec_well_formed GapSketch prog_lone
   \<and> LEDInit GapSketch pPalette_gap prog_lone 60 = Inr st_lone
   \<and> LEDStep GapSketch pPalette_gap prog_lone st_lone 1 = Inl ProgramOverrun"
  by code_simp

text \<open>
  Claim C8, amended.  For a program assembled from a non-empty list of simple and
  gradient operations (and gap operations in the sketch that has them) with the byte
  \<^verbatim>\<open>MODE_END\<close> itself as its last byte, initialization followed by any number of
  steps never reads the program at or past its length; when the palette holds every
  entry named, initialization and all steps succeed.
\<close>

theorem assembled_program_safe:
  assumes ne: "ops \<noteq> []" and ok: "list_all (op_ok k) ops"
  shows "bindE (LEDInit k pal (assemble ops) n) (\<lambda>st. LEDStep k pal (assemble ops) st c)
           \<noteq> Inl ProgramOverrun
       \<and> (list_all (pal_ok pal) ops \<longrightarrow>
            (\<exists>st'. bindE (LEDInit k pal (assemble ops) n)
                      (\<lambda>st. LEDStep k pal (assemble ops) st c) = Inr st'))"
proof (cases "pal_ok pal (ops ! 0)")
  case False
  moreover from ne False have "\<not> list_all (pal_ok pal) ops"
    by (auto simp add: list_all_length)
  ultimately show ?thesis by (simp add: LEDInit_assemble [OF ne ok])
next
  case True
  let ?st0 = "(load_op pal (ops ! 0) (memset0\<lparr>pRLEStart := 0, iLen := n\<rparr>))\<lparr>pRLE := offs ops 1\<rparr>"
  have init: "LEDInit k pal (assemble ops) n = Inr ?st0"
    using True by (simp add: LEDInit_assemble [OF ne ok])
  have "at_boundary ops (pRLE ?st0, ?st0)"
    using ne by (auto simp add: at_boundary_def memset0_def Suc_le_eq intro!: exI [of _ 1])
  from LEDStep_loop_at_boundary [OF ne ok this, of pal "nat c"]
  show ?thesis
    unfolding init bindE_simps LEDStep_def
    by (auto simp add: bindE_Inr_iff)
qed

theorem assembled_program_safe_witness:
  "ops_a \<noteq> [] \<and> list_all (op_ok GapSketch) ops_a \<and> list_all (pal_ok pPalette_gap) ops_a
   \<and> assemble ops_a = prog_a
   \<and> (\<exists>st'. bindE (LEDInit GapSketch pPalette_gap (assemble ops_a) 5)
               (\<lambda>st. LEDStep GapSketch pPalette_gap (assemble ops_a) st 1000) = Inr st')"
proof -
  have h1: "ops_a \<noteq> []" by (simp add: ops_a_def)
  have h2: "list_all (op_ok GapSketch) ops_a" by (simp add: ops_a_def)
  have h3: "list_all (pal_ok pPalette_gap) ops_a" by (simp add: ops_a_def pPalette_gap_def)
  have h4: "assemble ops_a = prog_a" by (simp add: assemble_def ops_a_def prog_a_def)
  from assembled_program_safe [OF h1 h2, of pPalette_gap 5 1000] h1 h2 h3 h4 show ?thesis by blast
qed

text \<open>
  Claim C9 says that the count goes down by one with every pixel.  In the two-run
  program the state after one step has count 0, and the next step, which shows the
  next pixel, leaves count 1: the count is loaded from the next operation.
\<close>

theorem count_reload_counterexample:
  "LEDInit GapSketch pPalette_gap prog_a 5 = Inr st_a
   \<and> LEDStep GapSketch pPalette_gap prog_a st_a 1 = Inr st_b
   \<and> LEDStep GapSketch pPalette_gap prog_a st_b 1 = Inr st_c
   \<and> iCount st_b = 0 \<and> iCount st_c = 1"
  by code_simp

text \<open>
  Claim C9, amended.  In every state reached by \<^verbatim>\<open>LEDInit\<close>, \<^verbatim>\<open>LEDStep\<close> and
  \<^verbatim>\<open>LEDPulse\<close> the remaining count is at most 63, so it lies in the range from 0 to
  64.  A single step taken with a positive count lowers it by exactly one; a single
  step taken with count 0 does not lower it but loads the length bits of the operation
  it decodes.  A run of \<open>c + 1\<close> pixels therefore sees \<open>c\<close> decrements.
\<close>

theorem count_bound_and_step:
  assumes "reachable k pal prog st"
  shows "unat (iCount st) \<le> 63
       \<and> (\<forall>st'. LEDStep k pal prog st 1 = Inr st' \<longrightarrow>
             (if 0 < iCount st then unat (iCount st') + 1 = unat (iCount st)
              else iCount st' = decoded_op prog st AND LENGTH_MASK))"
proof -
  have bound: "unat (iCount st) \<le> 63" using assms by (rule reachable_iCount)
  have next_count:
    "if 0 < iCount st then unat (iCount st') + 1 = unat (iCount st)
     else iCount st' = decoded_op prog st AND LENGTH_MASK"
    if one: "LEDStep k pal prog st 1 = Inr st'" for st'
  proof (cases "0 < iCount st")
    case True
    then have "1 \<le> unat (iCount st)"
      by (simp add: word_less_nat_alt Suc_le_eq)
    then have "LEDStep k pal prog st (int 1) = Inr (run_on 1 st)" by (rule LEDStep_cont)
    with one have "st' = run_on 1 st" by simp
    with True \<open>1 \<le> unat (iCount st)\<close> show ?thesis
      by (simp add: run_on_def unat_pred)
  next
    case False
    then have z: "iCount st = 0" by (simp add: word_greater_zero_iff)
    from z one have "decodes prog st" by (rule LEDStep_one_decodes)
    from one obtain s2 st2 where
      "switch_op k pal prog (decoded_op prog st) (param_cursor prog st) st = Inr (s2, st2)"
      "st' = st2\<lparr>pRLE := s2\<rparr>"
      unfolding LEDStep_decodes [OF \<open>decodes prog st\<close>] bindE_Inr_iff by auto
    then have "iCount st' = decoded_op prog st AND LENGTH_MASK"
      by (auto dest: switch_op_fields)
    with z show ?thesis by simp
  qed
  from bound next_count show ?thesis by blast
qed

theorem count_bound_and_step_witness:
  "reachable GapSketch pPalette_gap prog_a st_a \<and> unat (iCount st_a) \<le> 63
   \<and> LEDStep GapSketch pPalette_gap prog_a st_a 1 = Inr st_b
   \<and> unat (iCount st_b) + 1 = unat (iCount st_a)"
proof -
  have reach: "reachable GapSketch pPalette_gap prog_a st_a"
    using init_a by (rule reachable.init)
  have pos: "0 < iCount st_a" by (simp add: st_a_def)
  from count_bound_and_step [OF reach] step_a pos reach show ?thesis by auto
qed

text \<open>
  Claim C10.  \<^verbatim>\<open>LEDShow\<close> works on its local copy: the structure it was handed is the
  same in every field when it returns, and a second call on it sends the same frame.
\<close>

theorem LEDShow_keeps_state:
  "LEDShow k pal prog st = Inr (out, st') \<Longrightarrow>
     st' = st \<and> LEDShow k pal prog st' = Inr (out, st')"
  by (auto simp add: LEDShow_def bindE_Inr_iff)

theorem LEDShow_keeps_state_witness:
  "LEDShow GapSketch pPalette_gap prog_a st_a = Inr (frame_a, st_a)
   \<and> (case LEDShow GapSketch pPalette_gap prog_a st_a of
        Inl e \<Rightarrow> False
      | Inr x \<Rightarrow> snd x = st_a \<and> LEDShow GapSketch pPalette_gap prog_a (snd x) = Inr x)"
  using LEDShow_keeps_state [OF show_a] show_a by simp

end
